theory Spec2Isabelle
  imports Complex_Main "HOL-Library.Word"
begin

unbundle bit_operations_syntax

section \<open>Numbers, typed arrays and errors\<close>

text \<open>
  The quantization worker (\<^verbatim>\<open>src/workers/quantWorker.ts\<close>, second revision, lines 189-628)
  and the image utilities (\<^verbatim>\<open>imageUtils\<close>, the revision with the worker path) compute with
  JavaScript numbers and typed arrays.

  \<^item> A byte of a \<^verbatim>\<open>Uint8Array\<close> or \<^verbatim>\<open>Uint8ClampedArray\<close> is an \<open>8 word\<close>.
  \<^item> A JavaScript number is a \<open>real option\<close>: \<open>Some v\<close> is the finite number \<open>v\<close>,
    \<open>None\<close> stands for \<^verbatim>\<open>NaN\<close> and for \<^verbatim>\<open>undefined\<close> used as a number (an out-of-range
    typed-array read). Both behave alike everywhere they occur here: arithmetic gives
    \<^verbatim>\<open>NaN\<close>, every comparison is false, \<^verbatim>\<open>ToInt32\<close> gives 0 and a store into a typed
    array writes 0.
  \<^item> Double and Float32 rounding is not modelled: arithmetic is exact real arithmetic.
  \<^item> Exceptions are values of type \<open>error\<close>; a function that can throw returns
    \<open>error + 'a\<close>.
\<close>

type_synonym byte = "8 word"
type_synonym num = "real option"

datatype error = RangeError | TypeError | IndexSizeError | InvalidStateError

text \<open>The number a byte stands for.\<close>

definition byte_val :: "byte \<Rightarrow> real" where
  "byte_val v = real (unat v)"

text \<open>Reading index \<open>i\<close> of a byte array: \<^verbatim>\<open>undefined\<close> out of range.\<close>

definition u8_get :: "byte list \<Rightarrow> nat \<Rightarrow> num" where
  "u8_get xs i = (if i < length xs then Some (byte_val (xs ! i)) else None)"

text \<open>Reading index \<open>i\<close> of a \<^verbatim>\<open>Float32Array\<close>.\<close>

definition f32_get :: "real list \<Rightarrow> nat \<Rightarrow> num" where
  "f32_get xs i = (if i < length xs then Some (xs ! i) else None)"

definition num_add :: "num \<Rightarrow> num \<Rightarrow> num" where
  "num_add a b = (case (a, b) of (Some x, Some y) \<Rightarrow> Some (x + y) | _ \<Rightarrow> None)"

definition num_sub :: "num \<Rightarrow> num \<Rightarrow> num" where
  "num_sub a b = (case (a, b) of (Some x, Some y) \<Rightarrow> Some (x - y) | _ \<Rightarrow> None)"

definition num_mul :: "num \<Rightarrow> num \<Rightarrow> num" where
  "num_mul a b = (case (a, b) of (Some x, Some y) \<Rightarrow> Some (x * y) | _ \<Rightarrow> None)"

text \<open>\<^verbatim>\<open>function clamp255(x){ return x<0?0:x>255?255:x; }\<close>: both tests fail on NaN.\<close>

definition clamp255 :: "num \<Rightarrow> num" where
  "clamp255 x = (case x of None \<Rightarrow> None
                 | Some v \<Rightarrow> Some (if v < 0 then 0 else if v > 255 then 255 else v))"

text \<open>
  Storing a number into a \<^verbatim>\<open>Uint8ClampedArray\<close>: NaN and \<^verbatim>\<open>undefined\<close> store 0, other
  values are clamped to 0..255 and rounded to the nearest integer, ties to even.
\<close>

definition round_half_even :: "real \<Rightarrow> int" where
  "round_half_even v =
     (let f = \<lfloor>v\<rfloor> in
      if v - of_int f < 1/2 then f
      else if v - of_int f > 1/2 then f + 1
      else if even f then f else f + 1)"

definition to_u8c :: "num \<Rightarrow> byte" where
  "to_u8c x = (case x of None \<Rightarrow> 0
               | Some v \<Rightarrow> word_of_int (round_half_even (if v < 0 then 0 else if v > 255 then 255 else v)))"

text \<open>32-bit integer operators: \<^verbatim>\<open>ToInt32\<close>, \<^verbatim>\<open><<\<close>, \<^verbatim>\<open>>>\<close>; the shift count is taken modulo 32.\<close>

definition wrap32 :: "int \<Rightarrow> int" where
  "wrap32 i = (i + 2 ^ 31) mod 2 ^ 32 - 2 ^ 31"

definition toInt32 :: "num \<Rightarrow> int" where
  "toInt32 x = (case x of None \<Rightarrow> 0
                | Some v \<Rightarrow> wrap32 (if 0 \<le> v then \<lfloor>v\<rfloor> else \<lceil>v\<rceil>))"

definition shl32 :: "int \<Rightarrow> int \<Rightarrow> int" where
  "shl32 a k = wrap32 (a * 2 ^ nat (k mod 32))"

definition sar32 :: "int \<Rightarrow> int \<Rightarrow> int" where
  "sar32 a k = a div 2 ^ nat (k mod 32)"

section \<open>Colour space\<close>

text \<open>\<^verbatim>\<open>srgbToLinear\<close> and \<^verbatim>\<open>rgbToOklab\<close> (the same text in the worker and in imageUtils).\<close>

definition srgbToLinear :: "real \<Rightarrow> real" where
  "srgbToLinear c0 =
     (let c = c0 / 255 in
      if c \<le> 0.04045 then c / 12.92 else ((c + 0.055) / 1.055) powr 2.4)"

definition rgbToOklab :: "real \<Rightarrow> real \<Rightarrow> real \<Rightarrow> real \<times> real \<times> real" where
  "rgbToOklab r g b =
     (let rl = srgbToLinear r; gl = srgbToLinear g; bl = srgbToLinear b;
          l = 0.4122214708 * rl + 0.5363325363 * gl + 0.0514459929 * bl;
          m = 0.2119034982 * rl + 0.6806995451 * gl + 0.1073969566 * bl;
          s = 0.0883024619 * rl + 0.2817188376 * gl + 0.6299787005 * bl;
          l' = root 3 l; m' = root 3 m; s' = root 3 s;
          L = 0.2104542553 * l' + 0.7936177850 * m' - 0.0040720468 * s';
          a = 1.9779984951 * l' - 2.4285922050 * m' + 0.4505937099 * s';
          b2 = 0.0259040371 * l' + 0.7827717662 * m' - 0.8086757660 * s'
      in (L, a, b2))"

text \<open>
  \<^verbatim>\<open>rgbToOklab\<close> on numbers that may be NaN: each of the three results depends on all
  three arguments, so one NaN argument makes all three results NaN.
\<close>

definition rgbToOklab_num :: "num \<Rightarrow> num \<Rightarrow> num \<Rightarrow> num \<times> num \<times> num" where
  "rgbToOklab_num r g b =
     (case (r, g, b) of
        (Some r', Some g', Some b') \<Rightarrow>
          (case rgbToOklab r' g' b' of (L, a, b2) \<Rightarrow> (Some L, Some a, Some b2))
      | _ \<Rightarrow> (None, None, None))"

section \<open>Prepared palette and lookup cache\<close>

datatype DistanceMode = RGB | OKLab

text \<open>
  The object returned by \<^verbatim>\<open>buildPalettePrepared\<close>; the field \<^verbatim>\<open>n\<close> is called \<open>pn\<close>.
  \<open>pL\<close>, \<open>pA\<close>, \<open>pB\<close> are \<^verbatim>\<open>undefined\<close> (\<open>None\<close>) unless the distance is OKLab.
\<close>

record PalettePrepared =
  pr :: "byte list"
  pg :: "byte list"
  pb :: "byte list"
  pL :: "real list option"
  pA :: "real list option"
  pB :: "real list option"
  pn :: nat

definition oklabOfEntry :: "byte list \<Rightarrow> byte list \<Rightarrow> byte list \<Rightarrow> nat \<Rightarrow> real \<times> real \<times> real" where
  "oklabOfEntry rs gs bs i =
     rgbToOklab (byte_val (rs ! i)) (byte_val (gs ! i)) (byte_val (bs ! i))"

definition buildPalettePrepared :: "byte list \<Rightarrow> DistanceMode \<Rightarrow> PalettePrepared" where
  "buildPalettePrepared pFlat distance =
     (let k = length pFlat div 3;
          rs = map (\<lambda>i. pFlat ! (i * 3)) [0..<k];
          gs = map (\<lambda>i. pFlat ! (i * 3 + 1)) [0..<k];
          bs = map (\<lambda>i. pFlat ! (i * 3 + 2)) [0..<k]
      in \<lparr> pr = rs, pg = gs, pb = bs,
           pL = (if distance = OKLab then Some (map (\<lambda>i. fst (oklabOfEntry rs gs bs i)) [0..<k]) else None),
           pA = (if distance = OKLab then Some (map (\<lambda>i. fst (snd (oklabOfEntry rs gs bs i))) [0..<k]) else None),
           pB = (if distance = OKLab then Some (map (\<lambda>i. snd (snd (oklabOfEntry rs gs bs i))) [0..<k]) else None),
           pn = k \<rparr>)"

text \<open>
  The object returned by \<^verbatim>\<open>makeLUT\<close>: the \<^verbatim>\<open>Int32Array\<close> and the two numbers its key
  closure captures. \<^verbatim>\<open>new Int32Array(lutSize)\<close> throws a RangeError on a negative length.
\<close>

record LUT =
  lut_tab :: "int list"
  lut_bits :: int
  lut_shift :: int

definition makeLUT :: "int \<Rightarrow> error + LUT" where
  "makeLUT bits0 =
     (let lutSize = shl32 1 (bits0 * 3) in
      if lutSize < 0 then Inl RangeError
      else Inr \<lparr> lut_tab = replicate (nat lutSize) (- 1), lut_bits = bits0, lut_shift = 8 - bits0 \<rparr>)"

text \<open>\<^verbatim>\<open>key = (r,g,b) => ((r>>shift) << (bits*2)) | ((g>>shift) << bits) | (b>>shift)\<close>\<close>

definition lut_key :: "LUT \<Rightarrow> num \<Rightarrow> num \<Rightarrow> num \<Rightarrow> int" where
  "lut_key l r g b =
     (shl32 (sar32 (toInt32 r) (lut_shift l)) (lut_bits l * 2)
        OR shl32 (sar32 (toInt32 g) (lut_shift l)) (lut_bits l))
        OR sar32 (toInt32 b) (lut_shift l)"

text \<open>Reading and writing the \<^verbatim>\<open>Int32Array\<close> at a key: out of range reads \<^verbatim>\<open>undefined\<close>,
  out of range writes are dropped.\<close>

definition lut_get :: "int list \<Rightarrow> int \<Rightarrow> int option" where
  "lut_get tab k = (if 0 \<le> k \<and> k < int (length tab) then Some (tab ! nat k) else None)"

definition lut_set :: "int list \<Rightarrow> int \<Rightarrow> int \<Rightarrow> int list" where
  "lut_set tab k v = (if 0 \<le> k \<and> k < int (length tab) then tab[nat k := v] else tab)"

section \<open>Nearest palette index\<close>

text \<open>\<open>bestDist\<close> starts at \<^verbatim>\<open>Infinity\<close> and afterwards holds a finite distance.\<close>

datatype bound = PosInf | Fin real

text \<open>\<^verbatim>\<open>d < bestDist\<close>: false when \<open>d\<close> is NaN.\<close>

fun num_less_bound :: "num \<Rightarrow> bound \<Rightarrow> bool" where
  "num_less_bound None _ = False"
| "num_less_bound (Some x) PosInf = True"
| "num_less_bound (Some x) (Fin y) = (x < y)"

text \<open>
  The scan loop \<^verbatim>\<open>for(i=0;i<n;i++){ d = ...; if(d < bestDist){ bestDist = d; best = i; } }\<close>,
  over the indices still to visit, with the distance of entry \<open>i\<close> given by \<open>d i\<close>.
\<close>

fun scan :: "(nat \<Rightarrow> num) \<Rightarrow> nat list \<Rightarrow> nat \<times> bound \<Rightarrow> nat \<times> bound" where
  "scan d [] acc = acc"
| "scan d (i # is) (best, bestDist) =
     (case d i of
        None \<Rightarrow> scan d is (best, bestDist)
      | Some x \<Rightarrow> if num_less_bound (Some x) bestDist then scan d is (i, Fin x)
                  else scan d is (best, bestDist))"

text \<open>The loop body's distance in the \<^verbatim>\<open>'rgb'\<close> branch (lines 264-265).\<close>

definition distRGB :: "num \<Rightarrow> num \<Rightarrow> num \<Rightarrow> PalettePrepared \<Rightarrow> nat \<Rightarrow> num" where
  "distRGB r g b prep i =
     (let dr = num_sub r (u8_get (pr prep) i);
          dg = num_sub g (u8_get (pg prep) i);
          db = num_sub b (u8_get (pb prep) i)
      in num_add (num_add (num_mul dr dr) (num_mul dg dg)) (num_mul db db))"

text \<open>The loop body's distance in the OKLab branch (lines 273-274).\<close>

definition distOKLab :: "num \<times> num \<times> num \<Rightarrow> real list \<Rightarrow> real list \<Rightarrow> real list \<Rightarrow> nat \<Rightarrow> num" where
  "distOKLab lab pLl pAl pBl i =
     (case lab of (L1, a1, b1) \<Rightarrow>
        (let dL = num_sub L1 (f32_get pLl i);
             da = num_sub a1 (f32_get pAl i);
             db2 = num_sub b1 (f32_get pBl i)
         in num_add (num_add (num_mul dL dL) (num_mul da da)) (num_mul db2 db2)))"

text \<open>
  Lines 260-277 of \<^verbatim>\<open>nearestIdx\<close>: the full scan. In the OKLab branch the arrays are
  indexed in the first iteration, which throws a TypeError when one of them is
  \<^verbatim>\<open>undefined\<close>; with \<open>n = 0\<close> the loop body never runs.
\<close>

definition fullScan :: "num \<Rightarrow> num \<Rightarrow> num \<Rightarrow> PalettePrepared \<Rightarrow> DistanceMode \<Rightarrow> error + nat" where
  "fullScan r g b prep distance =
     (case distance of
        RGB \<Rightarrow> Inr (fst (scan (distRGB r g b prep) [0..<pn prep] (0, PosInf)))
      | OKLab \<Rightarrow>
          (if pn prep = 0 then Inr 0
           else (case (pL prep, pA prep, pB prep) of
                   (Some pLl, Some pAl, Some pBl) \<Rightarrow>
                     Inr (fst (scan (distOKLab (rgbToOklab_num r g b) pLl pAl pBl) [0..<pn prep] (0, PosInf)))
                 | _ \<Rightarrow> Inl TypeError)))"

text \<open>Line 259: the cache lookup; \<^verbatim>\<open>undefined >= 0\<close> is false.\<close>

definition cachedIdx :: "LUT option \<Rightarrow> num \<Rightarrow> num \<Rightarrow> num \<Rightarrow> nat option" where
  "cachedIdx lutopt r g b =
     (case lutopt of
        None \<Rightarrow> None
      | Some l \<Rightarrow>
          (case lut_get (lut_tab l) (lut_key l r g b) of
             None \<Rightarrow> None
           | Some cached \<Rightarrow> if cached \<ge> 0 then Some (nat cached) else None))"

text \<open>
  \<^verbatim>\<open>nearestIdx(r,g,b,prep,distance,lut?)\<close>: returns the index and the cache after the call
  (the cache is mutated in place in the source). Palette sizes are below \<open>2^31\<close>, so the
  index is stored in the \<^verbatim>\<open>Int32Array\<close> unchanged.
\<close>

definition nearestIdx ::
    "num \<Rightarrow> num \<Rightarrow> num \<Rightarrow> PalettePrepared \<Rightarrow> DistanceMode \<Rightarrow> LUT option \<Rightarrow> error + nat \<times> LUT option" where
  "nearestIdx r g b prep distance lutopt =
     (case cachedIdx lutopt r g b of
        Some cached \<Rightarrow> Inr (cached, lutopt)
      | None \<Rightarrow>
          (case fullScan r g b prep distance of
             Inl e \<Rightarrow> Inl e
           | Inr best \<Rightarrow>
               Inr (best,
                    map_option (\<lambda>l. l\<lparr> lut_tab := lut_set (lut_tab l) (lut_key l r g b) (int best) \<rparr>) lutopt)))"

section \<open>The worker: jobs and the strip-parallel modes\<close>

datatype DitherMode = NoneMode | FloydSteinberg | Ordered4 | Ordered8 | Atkinson | OptimisedCustom

text \<open>
  \<^verbatim>\<open>interface QuantizeJob\<close>. Sizes and scanline numbers are natural numbers. The optional
  fields are options. \<open>orderedStrength\<close> is an option because the worker reads it through
  \<^verbatim>\<open>orderedStrength ?? 0.5\<close>. \<open>ditherAmount\<close> is not part of the interface: it is the extra
  property of the message object that \<^verbatim>\<open>quantizeToPaletteAdvancedFast\<close> posts.
\<close>

record QuantizeJob =
  width :: nat
  height :: nat
  src :: "byte list"
  palette :: "byte list"
  mode :: DitherMode
  distance :: DistanceMode
  orderedStrength :: "real option"
  serpentine :: bool
  yStart :: "nat option"
  yEnd :: "nat option"
  cacheBits :: "int option"
  ditherAmount :: real

definition M4 :: "nat list list" where
  "M4 = [[0, 8, 2, 10],
         [12, 4, 14, 6],
         [3, 11, 1, 9],
         [15, 7, 13, 5]]"

definition M8 :: "nat list list" where
  "M8 = [[0, 32, 8, 40, 2, 34, 10, 42],
         [48, 16, 56, 24, 50, 18, 58, 26],
         [12, 44, 4, 36, 14, 46, 6, 38],
         [60, 28, 52, 20, 62, 30, 54, 22],
         [3, 35, 11, 43, 1, 33, 9, 41],
         [51, 19, 59, 27, 49, 17, 57, 25],
         [15, 47, 7, 39, 13, 45, 5, 37],
         [63, 31, 55, 23, 61, 29, 53, 21]]"

text \<open>A loop whose body may throw: the first error ends it.\<close>

fun foldE :: "('a \<Rightarrow> 's \<Rightarrow> error + 's) \<Rightarrow> 'a list \<Rightarrow> 's \<Rightarrow> error + 's" where
  "foldE f [] s = Inr s"
| "foldE f (x # xs) s = (case f x s of Inl e \<Rightarrow> Inl e | Inr s' \<Rightarrow> foldE f xs s')"

text \<open>
  Lines 314-315: the Bayer perturbation of one channel triple at \<open>(x, y)\<close>, applied in the
  ordered modes only. \<open>strength\<close> is \<^verbatim>\<open>clamp255(255 * (orderedStrength ?? 0.5))\<close>.
\<close>

definition orderedPerturb :: "DitherMode \<Rightarrow> num \<Rightarrow> nat \<Rightarrow> nat \<Rightarrow> num \<times> num \<times> num \<Rightarrow> num \<times> num \<times> num" where
  "orderedPerturb md strength y x rgb =
     (case rgb of (r, g, b) \<Rightarrow>
       (if md = Ordered4 \<or> md = Ordered8 then
          (let sz = (if md = Ordered4 then 4 else 8 :: nat);
               denom = (if sz = 4 then 16 else 64 :: real);
               M = (if md = Ordered4 then M4 else M8);
               t = num_mul (num_sub (Some (real (M ! (y mod sz) ! (x mod sz)) / denom)) (Some 0.5)) strength
           in (clamp255 (num_add r t), clamp255 (num_add g t), clamp255 (num_add b t)))
        else (r, g, b)))"

text \<open>
  Writing the four bytes of a pixel (lines 319-322): \<^verbatim>\<open>prep.pr[idx]\<close> may be
  \<^verbatim>\<open>undefined\<close>; writes beyond the end of the array are dropped, as \<open>list_update\<close> does.
\<close>

definition writePixel :: "PalettePrepared \<Rightarrow> nat \<Rightarrow> nat \<Rightarrow> byte list \<Rightarrow> byte list" where
  "writePixel prep idx off out =
     out[off := to_u8c (u8_get (pr prep) idx),
         off + 1 := to_u8c (u8_get (pg prep) idx),
         off + 2 := to_u8c (u8_get (pb prep) idx),
         off + 3 := 255]"

text \<open>The body of the two loops of \<^verbatim>\<open>doNoneOrOrdered\<close> (lines 311-322).\<close>

definition noneOrOrderedPixel ::
    "nat \<Rightarrow> byte list \<Rightarrow> PalettePrepared \<Rightarrow> DistanceMode \<Rightarrow> DitherMode \<Rightarrow> num \<Rightarrow> nat \<Rightarrow> nat \<Rightarrow> nat \<Rightarrow>
     LUT option \<times> byte list \<Rightarrow> error + LUT option \<times> byte list" where
  "noneOrOrderedPixel w srcArr prep dm md strength y0 y x st =
     (case st of (lutopt, outStrip) \<Rightarrow>
       (let j = ((y - y0) * w + x) * 4 in
        case orderedPerturb md strength y x (u8_get srcArr j, u8_get srcArr (j + 1), u8_get srcArr (j + 2)) of
          (r, g, b) \<Rightarrow>
            (case nearestIdx r g b prep dm lutopt of
               Inl e \<Rightarrow> Inl e
             | Inr (idx, lutopt') \<Rightarrow> Inr (lutopt', writePixel prep idx (((y - y0) * w + x) * 4) outStrip))))"

text \<open>The two nested loops of lines 309-324, from scanline \<open>y0\<close> up to \<open>y1\<close>.\<close>

definition noneOrOrderedLoops ::
    "nat \<Rightarrow> byte list \<Rightarrow> PalettePrepared \<Rightarrow> DistanceMode \<Rightarrow> DitherMode \<Rightarrow> num \<Rightarrow> nat \<Rightarrow> nat \<Rightarrow>
     LUT option \<times> byte list \<Rightarrow> error + LUT option \<times> byte list" where
  "noneOrOrderedLoops w srcArr prep dm md strength y0 y1 st =
     foldE (\<lambda>y. foldE (noneOrOrderedPixel w srcArr prep dm md strength y0 y) [0..<w]) [y0..<y1] st"

text \<open>
  \<^verbatim>\<open>doNoneOrOrdered(job)\<close>. \<^verbatim>\<open>new Uint8ClampedArray((y1 - y0) * w * 4)\<close> throws a
  RangeError on a negative length, that is when \<open>y1 < y0\<close> and \<open>w > 0\<close>.
\<close>

definition doNoneOrOrdered :: "QuantizeJob \<Rightarrow> error + byte list" where
  "doNoneOrOrdered job =
     (let w = width job; h = height job;
          y0 = (case yStart job of None \<Rightarrow> 0 | Some v \<Rightarrow> v);
          y1 = (case yEnd job of None \<Rightarrow> h | Some v \<Rightarrow> v);
          outStrip = replicate ((y1 - y0) * w * 4) (0 :: byte);
          prep = buildPalettePrepared (palette job) (distance job);
          strength = clamp255 (Some (255 * (case orderedStrength job of None \<Rightarrow> 0.5 | Some v \<Rightarrow> v)))
      in if y1 < y0 \<and> 0 < w then Inl RangeError
         else (case makeLUT (case cacheBits job of None \<Rightarrow> 5 | Some v \<Rightarrow> v) of
                 Inl e \<Rightarrow> Inl e
               | Inr l \<Rightarrow>
                  (case noneOrOrderedLoops w (src job) prep (distance job) (mode job) strength y0 y1 (Some l, outStrip) of
                     Inl e \<Rightarrow> Inl e
                   | Inr (lutopt, out) \<Rightarrow> Inr out)))"

section \<open>The worker: error diffusion\<close>

text \<open>
  The error accumulator \<^verbatim>\<open>buf\<close> is a \<^verbatim>\<open>Float32Array\<close> whose entries can become NaN (when a
  source read is out of range or the palette is empty), so it is a list of numbers.
\<close>

definition buf_get :: "num list \<Rightarrow> nat \<Rightarrow> num" where
  "buf_get buf i = (if i < length buf then buf ! i else None)"

definition weightsFS :: "(int \<times> int \<times> real) list" where
  "weightsFS = [(1, 0, 7/16), (- 1, 1, 3/16), (0, 1, 5/16), (1, 1, 1/16)]"

definition weightsAtk :: "(int \<times> int \<times> real) list" where
  "weightsAtk = [(1, 0, 1/8), (2, 0, 1/8), (- 1, 1, 1/8), (0, 1, 1/8), (1, 1, 1/8), (0, 2, 1/8)]"

text \<open>
  One iteration of \<^verbatim>\<open>for(const [dx,dy,f] of weights)\<close> (lines 605-606): the neighbour
  \<open>(x + dx*dir, y + dy)\<close> is skipped when it lies outside the frame, otherwise its three
  accumulator entries grow by \<open>er*f\<close>, \<open>eg*f\<close>, \<open>eb*f\<close>.
\<close>

definition diffuseTo ::
    "nat \<Rightarrow> nat \<Rightarrow> nat \<Rightarrow> nat \<Rightarrow> int \<Rightarrow> num \<times> num \<times> num \<Rightarrow> int \<times> int \<times> real \<Rightarrow> num list \<Rightarrow> num list" where
  "diffuseTo w h x y dir e wt buf =
     (case e of (er, eg, eb) \<Rightarrow>
      case wt of (dx, dy, f) \<Rightarrow>
       (let nx = int x + dx * dir; ny = int y + dy in
        if nx < 0 \<or> nx \<ge> int w \<or> ny < 0 \<or> ny \<ge> int h then buf
        else (let k = nat ((ny * int w + nx) * 3) in
              buf[k := num_add (buf_get buf k) (num_mul er (Some f)),
                  k + 1 := num_add (buf_get buf (k + 1)) (num_mul eg (Some f)),
                  k + 2 := num_add (buf_get buf (k + 2)) (num_mul eb (Some f))])))"

definition distributeError ::
    "nat \<Rightarrow> nat \<Rightarrow> nat \<Rightarrow> nat \<Rightarrow> int \<Rightarrow> num \<times> num \<times> num \<Rightarrow> (int \<times> int \<times> real) list \<Rightarrow> num list \<Rightarrow> num list" where
  "distributeError w h x y dir e weights buf = fold (diffuseTo w h x y dir e) weights buf"

text \<open>The body of the pixel loop of \<^verbatim>\<open>doDiffusion\<close> (lines 596-607).\<close>

definition diffusionPixel ::
    "nat \<Rightarrow> nat \<Rightarrow> byte list \<Rightarrow> PalettePrepared \<Rightarrow> DistanceMode \<Rightarrow> (int \<times> int \<times> real) list \<Rightarrow> nat \<Rightarrow> int \<Rightarrow> nat \<Rightarrow>
     LUT option \<times> byte list \<times> num list \<Rightarrow> error + LUT option \<times> byte list \<times> num list" where
  "diffusionPixel w h srcArr prep dm weights y dir x st =
     (case st of (lutopt, out, buf) \<Rightarrow>
       (let idx = y * w + x; i = idx * 4; bIdx = idx * 3;
            r = clamp255 (num_add (u8_get srcArr i) (buf_get buf bIdx));
            g = clamp255 (num_add (u8_get srcArr (i + 1)) (buf_get buf (bIdx + 1)));
            b = clamp255 (num_add (u8_get srcArr (i + 2)) (buf_get buf (bIdx + 2)))
        in case nearestIdx r g b prep dm lutopt of
             Inl e \<Rightarrow> Inl e
           | Inr (pi_, lutopt') \<Rightarrow>
               (let er = num_sub r (u8_get (pr prep) pi_);
                    eg = num_sub g (u8_get (pg prep) pi_);
                    eb = num_sub b (u8_get (pb prep) pi_)
                in Inr (lutopt', writePixel prep pi_ i out,
                        distributeError w h x y dir (er, eg, eb) weights buf))))"

text \<open>
  The order in which a row is visited: \<^verbatim>\<open>for(x=xStart; x!==xEnd; x+=dir)\<close> with
  \<^verbatim>\<open>dir = (serpentine && y%2===1) ? -1 : 1\<close>.
\<close>

definition scanDir :: "bool \<Rightarrow> nat \<Rightarrow> int" where
  "scanDir serp y = (if serp \<and> y mod 2 = 1 then - 1 else 1)"

definition rowOrder :: "nat \<Rightarrow> int \<Rightarrow> nat list" where
  "rowOrder w dir = (if dir = 1 then [0..<w] else rev [0..<w])"

section \<open>The worker: the adaptive diffusion mode\<close>

text \<open>
  \<^verbatim>\<open>Math.sqrt\<close>, \<^verbatim>\<open>Math.min(c, x)\<close>, \<^verbatim>\<open>Math.max(c, x)\<close>, \<^verbatim>\<open>Math.abs\<close> and division by a
  non-zero constant, on numbers that may be NaN.
\<close>

definition num_sqrt :: "num \<Rightarrow> num" where
  "num_sqrt a = (case a of None \<Rightarrow> None | Some v \<Rightarrow> if v < 0 then None else Some (sqrt v))"

definition num_min :: "real \<Rightarrow> num \<Rightarrow> num" where
  "num_min c a = (case a of None \<Rightarrow> None | Some v \<Rightarrow> Some (min c v))"

definition num_max :: "real \<Rightarrow> num \<Rightarrow> num" where
  "num_max c a = (case a of None \<Rightarrow> None | Some v \<Rightarrow> Some (max c v))"

definition num_abs :: "num \<Rightarrow> num" where
  "num_abs a = (case a of None \<Rightarrow> None | Some v \<Rightarrow> Some \<bar>v\<bar>)"

definition num_divc :: "num \<Rightarrow> real \<Rightarrow> num" where
  "num_divc a c = (case a of None \<Rightarrow> None | Some v \<Rightarrow> Some (v / c))"

text \<open>
  \<^verbatim>\<open>analyzePalette\<close>: the density array (the \<^verbatim>\<open>relationships\<close> matrix is never read).
  \<open>paletteDist\<close> is the distance \<^verbatim>\<open>dist\<close> of the inner loop; in the OKLab branch indexing an
  \<^verbatim>\<open>undefined\<close> array throws, which needs two palette entries to be reached.
\<close>

definition paletteDist :: "PalettePrepared \<Rightarrow> DistanceMode \<Rightarrow> nat \<Rightarrow> nat \<Rightarrow> num" where
  "paletteDist prep dm i j =
     (case dm of
        RGB \<Rightarrow>
          (let dr = num_sub (u8_get (pr prep) i) (u8_get (pr prep) j);
               dg = num_sub (u8_get (pg prep) i) (u8_get (pg prep) j);
               db = num_sub (u8_get (pb prep) i) (u8_get (pb prep) j)
           in num_sqrt (num_add (num_add (num_mul dr dr) (num_mul dg dg)) (num_mul db db)))
      | OKLab \<Rightarrow>
          (case (pL prep, pA prep, pB prep) of
             (Some pLl, Some pAl, Some pBl) \<Rightarrow>
               (let dL = num_sub (f32_get pLl i) (f32_get pLl j);
                    da = num_sub (f32_get pAl i) (f32_get pAl j);
                    db = num_sub (f32_get pBl i) (f32_get pBl j)
                in num_sqrt (num_add (num_add (num_mul dL dL) (num_mul da da)) (num_mul db db)))
           | _ \<Rightarrow> None))"

definition localDensity :: "PalettePrepared \<Rightarrow> DistanceMode \<Rightarrow> nat \<Rightarrow> real" where
  "localDensity prep dm i =
     foldl (\<lambda>acc j. if i = j then acc
                     else (case paletteDist prep dm i j of
                             None \<Rightarrow> acc
                           | Some d \<Rightarrow> if d < 0.2 then acc + 1.0 / (d + 0.01) else acc))
           0 [0..<pn prep]"

definition analyzePalette :: "PalettePrepared \<Rightarrow> DistanceMode \<Rightarrow> error + real list" where
  "analyzePalette prep dm =
     (if dm = OKLab \<and> 2 \<le> pn prep \<and> (pL prep = None \<or> pA prep = None \<or> pB prep = None)
      then Inl TypeError
      else Inr (map (\<lambda>i. min 1.0 (localDensity prep dm i / 10)) [0..<pn prep]))"

text \<open>
  \<^verbatim>\<open>candidates.sort((a,b) => a.dist - b.dist)\<close>: a stable sort; a comparator result of NaN
  counts as 0. Such a sort has one result when the comparator is consistent, which it is
  when the distances are all numbers or all NaN.
\<close>

definition cmpDist :: "nat \<times> num \<Rightarrow> nat \<times> num \<Rightarrow> real" where
  "cmpDist a b = (case num_sub (snd a) (snd b) of None \<Rightarrow> 0 | Some v \<Rightarrow> v)"

fun insertByDist :: "nat \<times> num \<Rightarrow> (nat \<times> num) list \<Rightarrow> (nat \<times> num) list" where
  "insertByDist c [] = [c]"
| "insertByDist c (d # ds) = (if cmpDist d c \<le> 0 then d # insertByDist c ds else c # d # ds)"

definition sortByDist :: "(nat \<times> num) list \<Rightarrow> (nat \<times> num) list" where
  "sortByDist cs = foldl (\<lambda>acc c. insertByDist c acc) [] cs"

definition findBestPaletteCandidates ::
    "num \<Rightarrow> num \<Rightarrow> num \<Rightarrow> PalettePrepared \<Rightarrow> DistanceMode \<Rightarrow> nat \<Rightarrow> error + (nat \<times> num) list" where
  "findBestPaletteCandidates r g b prep dm numCandidates =
     (case dm of
        RGB \<Rightarrow> Inr (take numCandidates (sortByDist (map (\<lambda>i. (i, distRGB r g b prep i)) [0..<pn prep])))
      | OKLab \<Rightarrow>
          (if pn prep = 0 then Inr []
           else (case (pL prep, pA prep, pB prep) of
                   (Some pLl, Some pAl, Some pBl) \<Rightarrow>
                     Inr (take numCandidates (sortByDist
                            (map (\<lambda>i. (i, distOKLab (rgbToOklab_num r g b) pLl pAl pBl i)) [0..<pn prep])))
                 | _ \<Rightarrow> Inl TypeError)))"

text \<open>\<^verbatim>\<open>0.299*srcArr[i] + 0.587*srcArr[i+1] + 0.114*srcArr[i+2]\<close>\<close>

definition lumaAt :: "byte list \<Rightarrow> nat \<Rightarrow> num" where
  "lumaAt srcArr i =
     num_add (num_add (num_mul (Some 0.299) (u8_get srcArr i)) (num_mul (Some 0.587) (u8_get srcArr (i + 1))))
             (num_mul (Some 0.114) (u8_get srcArr (i + 2)))"

definition inFrame :: "nat \<Rightarrow> nat \<Rightarrow> int \<Rightarrow> int \<Rightarrow> bool" where
  "inFrame w h nx ny = (nx \<ge> 0 \<and> nx < int w \<and> ny \<ge> 0 \<and> ny < int h)"

text \<open>\<^verbatim>\<open>calculateContextWeight\<close>: returns \<open>(edginess, variance)\<close>.\<close>

definition calculateContextWeight :: "nat \<Rightarrow> nat \<Rightarrow> nat \<Rightarrow> nat \<Rightarrow> byte list \<Rightarrow> num \<times> num" where
  "calculateContextWeight x y w h srcArr =
     (let samples = concat (map (\<lambda>dy. concat (map (\<lambda>dx.
                       (let nx = int x + dx; ny = int y + dy in
                        if inFrame w h nx ny then [lumaAt srcArr (nat ((ny * int w + nx) * 4))] else []))
                     [- 1, 0, 1])) [- 1, 0, 1]);
          k = length samples
      in if k > 1 then
           (let mean = num_divc (foldl num_add (Some 0) samples) (real k);
                variance = num_divc (foldl (\<lambda>sm val. num_add sm (num_mul (num_sub val mean) (num_sub val mean)))
                                           (Some 0) samples) (real k);
                edginess =
                  (if k \<ge> 9 then
                     (let gx = num_add (num_add (num_add (num_sub (num_sub (num_sub (Some 0) (samples ! 0))
                                   (num_mul (Some 2) (samples ! 3))) (samples ! 6)) (samples ! 2))
                                   (num_mul (Some 2) (samples ! 5))) (samples ! 8);
                          gy = num_add (num_add (num_add (num_sub (num_sub (num_sub (Some 0) (samples ! 0))
                                   (num_mul (Some 2) (samples ! 1))) (samples ! 2)) (samples ! 6))
                                   (num_mul (Some 2) (samples ! 7))) (samples ! 8)
                      in num_divc (num_sqrt (num_add (num_mul gx gx) (num_mul gy gy))) 1020)
                   else Some 0)
            in (num_min 1 edginess, num_min 1 (num_divc variance 10000)))
         else (num_min 1 (Some 0), num_min 1 (num_divc (Some 0) 10000)))"

text \<open>
  \<^verbatim>\<open>selectOptimalCandidate\<close>: reading \<^verbatim>\<open>candidates[0].idx\<close> of an empty list throws a
  TypeError.
\<close>

definition candidateStep :: "num \<times> num \<Rightarrow> real list \<Rightarrow> nat \<times> num \<Rightarrow> nat \<times> bound \<Rightarrow> nat \<times> bound" where
  "candidateStep context density candidate acc =
     (case context of (edginess, variance) \<Rightarrow>
      case candidate of (cidx, cdist) \<Rightarrow>
       (let densityPenalty = num_mul (f32_get density cidx) (Some 0.2);
            edgePenalty = num_mul (num_mul edginess cdist) (Some 0.1);
            variancePenalty = num_mul (num_mul variance cdist) (Some 0.05);
            score = num_add (num_add (num_add cdist densityPenalty) edgePenalty) variancePenalty
        in case score of
             None \<Rightarrow> acc
           | Some sc \<Rightarrow> if num_less_bound (Some sc) (snd acc) then (cidx, Fin sc) else acc))"

definition selectOptimalCandidate :: "(nat \<times> num) list \<Rightarrow> num \<times> num \<Rightarrow> real list \<Rightarrow> error + nat" where
  "selectOptimalCandidate candidates context density =
     (case candidates of
        [] \<Rightarrow> Inl TypeError
      | [c] \<Rightarrow> Inr (fst c)
      | c # _ \<Rightarrow> Inr (fst (fold (candidateStep context density) candidates (fst c, PosInf))))"

definition getPerceptualWeights :: "num \<Rightarrow> num \<Rightarrow> num \<Rightarrow> DistanceMode \<Rightarrow> num \<times> num \<times> num" where
  "getPerceptualWeights r g b dm =
     (case dm of
        RGB \<Rightarrow> (Some 0.299, Some 0.587, Some 0.114)
      | OKLab \<Rightarrow>
          (let L = fst (rgbToOklab_num r g b);
               lightness = num_max 0.1 (num_min 1.0 L);
               chromaWeight = num_add (Some 0.3) (num_mul (Some 0.4)
                                (num_sub (Some 1) (num_mul (num_abs (num_sub lightness (Some 0.5))) (Some 2))))
           in (num_add (Some 0.4) (num_mul (Some 0.2) lightness), chromaWeight, num_mul chromaWeight (Some 0.8))))"

text \<open>\<^verbatim>\<open>detectGradient\<close>; \<^verbatim>\<open>samples[i].dist || 1\<close> replaces a distance of 0 by 1.\<close>

definition detectGradient :: "nat \<Rightarrow> nat \<Rightarrow> nat \<Rightarrow> nat \<Rightarrow> byte list \<Rightarrow> num" where
  "detectGradient x y w h srcArr =
     (let samples = concat (map (\<lambda>(dx, dy, d).
                       (let nx = int x + dx; ny = int y + dy in
                        if inFrame w h nx ny then [(lumaAt srcArr (nat ((ny * int w + nx) * 4)), d)] else []))
                     [(0, 0, 0 :: real), (- 2, 0, 2), (2, 0, 2), (0, - 2, 2), (0, 2, 2)]);
          k = length samples
      in if k \<ge> 3 then
           (let center = fst (samples ! 0);
                totalGradient = foldl (\<lambda>t (l, d). num_add t (num_divc (num_abs (num_sub l center)) (if d = 0 then 1 else d)))
                                      (Some 0) (tl samples)
            in num_min 1 (num_divc totalGradient (255 * (real k - 1))))
         else Some 0)"

definition baseWeights :: "(int \<times> int \<times> real) list" where
  "baseWeights = [(1, 0, 7/16), (- 1, 1, 3/16), (0, 1, 5/16), (1, 1, 1/16)]"

definition longRangeWeights :: "(int \<times> int \<times> real) list" where
  "longRangeWeights = [(2, 0, 1/32), (0, 2, 1/32), (1, 2, 1/32), (- 1, 2, 1/64)]"

text \<open>
  One iteration of the two weight loops of \<^verbatim>\<open>doOptimisedCustom\<close> (lines 383-392 and
  398-406): the increment of a channel is \<open>e * (f * factor) * weight\<close>, where \<open>factor\<close> is
  \<^verbatim>\<open>errorFactor\<close> in the first loop and \<^verbatim>\<open>longRangeFactor\<close> in the second.
\<close>

definition customDiffuseTo ::
    "nat \<Rightarrow> nat \<Rightarrow> nat \<Rightarrow> nat \<Rightarrow> int \<Rightarrow> num \<times> num \<times> num \<Rightarrow> num \<times> num \<times> num \<Rightarrow> num \<Rightarrow>
     int \<times> int \<times> real \<Rightarrow> num list \<Rightarrow> num list" where
  "customDiffuseTo w h x y dir e pw factor wt buf =
     (case e of (er, eg, eb) \<Rightarrow>
      case pw of (wr, wg, wb) \<Rightarrow>
      case wt of (dx, dy, f) \<Rightarrow>
       (let nx = int x + dx * dir; ny = int y + dy in
        if inFrame w h nx ny then
          (let k = nat ((ny * int w + nx) * 3);
               adaptedF = num_mul (Some f) factor
           in buf[k := num_add (buf_get buf k) (num_mul (num_mul er adaptedF) wr),
                  k + 1 := num_add (buf_get buf (k + 1)) (num_mul (num_mul eg adaptedF) wg),
                  k + 2 := num_add (buf_get buf (k + 2)) (num_mul (num_mul eb adaptedF) wb)])
        else buf))"

text \<open>The body of the pixel loop of \<^verbatim>\<open>doOptimisedCustom\<close> (lines 354-407); the cache is not used.\<close>

definition customPixel ::
    "nat \<Rightarrow> nat \<Rightarrow> byte list \<Rightarrow> PalettePrepared \<Rightarrow> DistanceMode \<Rightarrow> real list \<Rightarrow> nat \<Rightarrow> int \<Rightarrow> nat \<Rightarrow>
     byte list \<times> num list \<Rightarrow> error + byte list \<times> num list" where
  "customPixel w h srcArr prep dm density y dir x st =
     (case st of (out, buf) \<Rightarrow>
       (let idx = y * w + x; i = idx * 4; bIdx = idx * 3;
            r = clamp255 (num_add (u8_get srcArr i) (buf_get buf bIdx));
            g = clamp255 (num_add (u8_get srcArr (i + 1)) (buf_get buf (bIdx + 1)));
            b = clamp255 (num_add (u8_get srcArr (i + 2)) (buf_get buf (bIdx + 2)))
        in case findBestPaletteCandidates r g b prep dm 3 of
             Inl e \<Rightarrow> Inl e
           | Inr candidates \<Rightarrow>
              (case selectOptimalCandidate candidates (calculateContextWeight x y w h srcArr) density of
                 Inl e \<Rightarrow> Inl e
               | Inr bestIdx \<Rightarrow>
                  (let er = num_sub r (u8_get (pr prep) bestIdx);
                       eg = num_sub g (u8_get (pg prep) bestIdx);
                       eb = num_sub b (u8_get (pb prep) bestIdx);
                       densityFactor = f32_get density bestIdx;
                       perceptualWeights = getPerceptualWeights r g b dm;
                       errorFactor = num_add (Some 0.85) (num_mul (Some 0.3) densityFactor);
                       buf1 = fold (customDiffuseTo w h x y dir (er, eg, eb) perceptualWeights errorFactor) baseWeights buf;
                       gradientFactor = detectGradient x y w h srcArr;
                       buf2 = (case gradientFactor of
                                 None \<Rightarrow> buf1
                               | Some gf \<Rightarrow>
                                   if gf > 0.3 then
                                     fold (customDiffuseTo w h x y dir (er, eg, eb) perceptualWeights
                                             (Some (gf * 0.15))) longRangeWeights buf1
                                   else buf1)
                   in Inr (writePixel prep bestIdx i out, buf2)))))"

definition doOptimisedCustom ::
    "nat \<Rightarrow> nat \<Rightarrow> DistanceMode \<Rightarrow> bool \<Rightarrow> byte list \<Rightarrow> byte list \<Rightarrow> PalettePrepared \<Rightarrow> num list \<Rightarrow> error + byte list" where
  "doOptimisedCustom w h dm serp srcArr out prep buf =
     (case analyzePalette prep dm of
        Inl e \<Rightarrow> Inl e
      | Inr density \<Rightarrow>
         (case foldE (\<lambda>y. foldE (customPixel w h srcArr prep dm density y (scanDir serp y)) (rowOrder w (scanDir serp y)))
                 [0..<h] (out, buf) of
            Inl e \<Rightarrow> Inl e
          | Inr (out', buf') \<Rightarrow> Inr out'))"

text \<open>
  \<^verbatim>\<open>doDiffusion(job)\<close>. The frame is always \<open>w*h\<close> pixels: the job's strip range is not read.
\<close>

definition doDiffusion :: "QuantizeJob \<Rightarrow> error + byte list" where
  "doDiffusion job =
     (let w = width job; h = height job;
          out = replicate (w * h * 4) (0 :: byte);
          prep = buildPalettePrepared (palette job) (distance job);
          buf = replicate (w * h * 3) (Some 0 :: num);
          weights = (if mode job = Atkinson then weightsAtk else weightsFS)
      in case makeLUT (case cacheBits job of None \<Rightarrow> 5 | Some v \<Rightarrow> v) of
           Inl e \<Rightarrow> Inl e
         | Inr l \<Rightarrow>
            (if mode job = OptimisedCustom
             then doOptimisedCustom w h (distance job) (serpentine job) (src job) out prep buf
             else (case foldE (\<lambda>y. foldE (diffusionPixel w h (src job) prep (distance job) weights y
                                            (scanDir (serpentine job) y))
                                     (rowOrder w (scanDir (serpentine job) y)))
                           [0..<h] (Some l, out, buf) of
                     Inl e \<Rightarrow> Inl e
                   | Inr (lutopt, out', buf') \<Rightarrow> Inr out')))"

text \<open>
  \<^verbatim>\<open>self.onmessage\<close>: the message posted back is either a \<^verbatim>\<open>QuantizeResult\<close> or
  \<^verbatim>\<open>{ error: String(err) }\<close>.
\<close>

datatype WorkerMessage = ResultMsg nat nat "byte list" | ErrorMsg error

definition onmessage :: "QuantizeJob \<Rightarrow> WorkerMessage" where
  "onmessage job =
     (case (if mode job = NoneMode \<or> mode job = Ordered4 \<or> mode job = Ordered8
            then doNoneOrOrdered job else doDiffusion job) of
        Inl err \<Rightarrow> ErrorMsg err
      | Inr outBuf \<Rightarrow>
          ResultMsg (case yStart job of None \<Rightarrow> 0 | Some v \<Rightarrow> v)
                    (case yEnd job of None \<Rightarrow> height job | Some v \<Rightarrow> v) outBuf)"

section \<open>Image utilities: images and the non-worker quantizer\<close>

text \<open>
  The browser's \<^verbatim>\<open>ImageData\<close>. Its two constructors throw unless the sizes are positive
  and, when a buffer is given, its length is \<open>4 * sw * sh\<close>; every \<^verbatim>\<open>ImageData\<close> that
  exists therefore satisfies \<open>wf_image\<close>.
\<close>

record ImageData =
  img_width :: nat
  img_height :: nat
  img_data :: "byte list"

definition wf_image :: "ImageData \<Rightarrow> bool" where
  "wf_image img = (0 < img_width img \<and> 0 < img_height img \<and>
                   length (img_data img) = 4 * img_width img * img_height img)"

definition newImageData :: "byte list \<Rightarrow> nat \<Rightarrow> nat \<Rightarrow> error + ImageData" where
  "newImageData d sw sh =
     (if sw = 0 \<or> sh = 0 then Inl IndexSizeError
      else if length d = 0 \<or> length d mod 4 \<noteq> 0 then Inl InvalidStateError
      else if (length d div 4) mod sw \<noteq> 0 \<or> (length d div 4) div sw \<noteq> sh then Inl IndexSizeError
      else Inr \<lparr> img_width = sw, img_height = sh, img_data = d \<rparr>)"

definition blankImageData :: "nat \<Rightarrow> nat \<Rightarrow> error + ImageData" where
  "blankImageData sw sh =
     (if sw = 0 \<or> sh = 0 then Inl IndexSizeError
      else Inr \<lparr> img_width = sw, img_height = sh, img_data = replicate (4 * sw * sh) 0 \<rparr>)"

text \<open>A palette entry \<^verbatim>\<open>{r, g, b}\<close>.\<close>

type_synonym rgb = "real \<times> real \<times> real"

text \<open>\<^verbatim>\<open>interface QuantizeAdvancedOptions\<close>: every field is optional.\<close>

record QuantizeAdvancedOptions =
  opt_distance :: "DistanceMode option"
  opt_dithering :: "DitherMode option"
  opt_orderedStrength :: "real option"
  opt_serpentine :: "bool option"
  opt_ditherAmount :: "real option"

definition colorDistance :: "num \<Rightarrow> num \<Rightarrow> num \<Rightarrow> real \<Rightarrow> real \<Rightarrow> real \<Rightarrow> DistanceMode \<Rightarrow> num" where
  "colorDistance aR aG aB bR bG bB md =
     (case md of
        RGB \<Rightarrow>
          (let dr = num_sub aR (Some bR); dg = num_sub aG (Some bG); db = num_sub aB (Some bB)
           in num_add (num_add (num_mul dr dr) (num_mul dg dg)) (num_mul db db))
      | OKLab \<Rightarrow>
          (case rgbToOklab_num aR aG aB of (L1, a1, b1) \<Rightarrow>
           case rgbToOklab bR bG bB of (L2, a2, b2) \<Rightarrow>
             (let dL = num_sub L1 (Some L2); da = num_sub a1 (Some a2); db = num_sub b1 (Some b2)
              in num_add (num_add (num_mul dL dL) (num_mul da da)) (num_mul db db))))"

text \<open>\<^verbatim>\<open>nearestPaletteColor\<close> returns \<^verbatim>\<open>palette[bestIdx]\<close>, which is \<^verbatim>\<open>undefined\<close> for an
  empty palette.\<close>

definition nearestPaletteIndex :: "num \<Rightarrow> num \<Rightarrow> num \<Rightarrow> rgb list \<Rightarrow> DistanceMode \<Rightarrow> nat" where
  "nearestPaletteIndex r g b pal md =
     fst (scan (\<lambda>i. case pal ! i of (cr, cg, cb) \<Rightarrow> colorDistance r g b cr cg cb md) [0..<length pal] (0, PosInf))"

definition nearestPaletteColor :: "num \<Rightarrow> num \<Rightarrow> num \<Rightarrow> rgb list \<Rightarrow> DistanceMode \<Rightarrow> rgb option" where
  "nearestPaletteColor r g b pal md =
     (let bestIdx = nearestPaletteIndex r g b pal md
      in if bestIdx < length pal then Some (pal ! bestIdx) else None)"

text \<open>
  The body of the loop of the \<^verbatim>\<open>'none'\<close> branch (line 240), at byte offset \<open>i\<close>; reading a
  field of \<^verbatim>\<open>undefined\<close> throws a TypeError.
\<close>

definition advNonePixel :: "rgb list \<Rightarrow> DistanceMode \<Rightarrow> nat \<Rightarrow> byte list \<Rightarrow> error + byte list" where
  "advNonePixel pal md i d =
     (case nearestPaletteColor (u8_get d i) (u8_get d (i + 1)) (u8_get d (i + 2)) pal md of
        None \<Rightarrow> Inl TypeError
      | Some (cr, cg, cb) \<Rightarrow>
          Inr (d[i := to_u8c (Some cr), i + 1 := to_u8c (Some cg), i + 2 := to_u8c (Some cb)]))"

text \<open>The body of the loops of the ordered branch (lines 268-273).\<close>

definition advOrderedPixel ::
    "rgb list \<Rightarrow> DistanceMode \<Rightarrow> DitherMode \<Rightarrow> real \<Rightarrow> real \<Rightarrow> nat \<Rightarrow> nat \<Rightarrow> nat \<Rightarrow> byte list \<Rightarrow> error + byte list" where
  "advOrderedPixel pal md dithering ordStrength dAmount w y x d =
     (let sz = (if dithering = Ordered4 then 4 else 8 :: nat);
          M = (if sz = 4 then M4 else M8);
          denom = (if sz = 4 then 16 else 64 :: real);
          i = (y * w + x) * 4;
          t = (real (M ! (y mod sz) ! (x mod sz)) / denom - 0.5) * 255 * ordStrength;
          tScaled = t * dAmount;
          r = clamp255 (num_add (u8_get d i) (Some tScaled));
          g = clamp255 (num_add (u8_get d (i + 1)) (Some tScaled));
          b = clamp255 (num_add (u8_get d (i + 2)) (Some tScaled))
      in case nearestPaletteColor r g b pal md of
           None \<Rightarrow> Inl TypeError
         | Some (cr, cg, cb) \<Rightarrow>
             Inr (d[i := to_u8c (Some cr), i + 1 := to_u8c (Some cg), i + 2 := to_u8c (Some cb)]))"

text \<open>
  The body of the pixel loop of the error-diffusion branch (lines 295-306). The weight
  applied to the error is \<^verbatim>\<open>f*diffusionScale\<close>, with \<^verbatim>\<open>diffusionScale = ditherAmount\<close>.
\<close>

definition advDiffusionPixel ::
    "nat \<Rightarrow> nat \<Rightarrow> byte list \<Rightarrow> rgb list \<Rightarrow> DistanceMode \<Rightarrow> (int \<times> int \<times> real) list \<Rightarrow> real \<Rightarrow> nat \<Rightarrow> int \<Rightarrow> nat \<Rightarrow>
     byte list \<times> num list \<Rightarrow> error + byte list \<times> num list" where
  "advDiffusionPixel w h srcArr pal md weights diffusionScale y dir x st =
     (case st of (od, buf) \<Rightarrow>
       (let idx = y * w + x; i = idx * 4; bIdx = idx * 3;
            r = clamp255 (num_add (u8_get srcArr i) (buf_get buf bIdx));
            g = clamp255 (num_add (u8_get srcArr (i + 1)) (buf_get buf (bIdx + 1)));
            b = clamp255 (num_add (u8_get srcArr (i + 2)) (buf_get buf (bIdx + 2)))
        in case nearestPaletteColor r g b pal md of
             None \<Rightarrow> Inl TypeError
           | Some (cr, cg, cb) \<Rightarrow>
               (let er = num_sub r (Some cr); eg = num_sub g (Some cg); eb = num_sub b (Some cb)
                in Inr (od[i := to_u8c (Some cr), i + 1 := to_u8c (Some cg), i + 2 := to_u8c (Some cb), i + 3 := 255],
                        distributeError w h x y dir (er, eg, eb)
                          (map (\<lambda>(dx, dy, f). (dx, dy, f * diffusionScale)) weights) buf))))"

text \<open>\<^verbatim>\<open>quantizeToPaletteAdvanced(img, palette, opts)\<close>, with the defaults of its destructuring.\<close>

definition quantizeToPaletteAdvanced :: "ImageData \<Rightarrow> rgb list \<Rightarrow> QuantizeAdvancedOptions \<Rightarrow> error + ImageData" where
  "quantizeToPaletteAdvanced img pal opts =
     (if pal = [] then Inr img
      else
       (let md = (case opt_distance opts of None \<Rightarrow> OKLab | Some v \<Rightarrow> v);
            dithering = (case opt_dithering opts of None \<Rightarrow> NoneMode | Some v \<Rightarrow> v);
            ordStrength = (case opt_orderedStrength opts of None \<Rightarrow> 0.5 | Some v \<Rightarrow> v);
            serp = (case opt_serpentine opts of None \<Rightarrow> True | Some v \<Rightarrow> v);
            dAmount = (case opt_ditherAmount opts of None \<Rightarrow> 1 | Some v \<Rightarrow> v)
        in if dithering = NoneMode then
             (case newImageData (img_data img) (img_width img) (img_height img) of
                Inl e \<Rightarrow> Inl e
              | Inr out \<Rightarrow>
                 (case foldE (advNonePixel pal md) (map (\<lambda>k. 4 * k) [0..<(length (img_data out) + 3) div 4])
                         (img_data out) of
                    Inl e \<Rightarrow> Inl e
                  | Inr d \<Rightarrow> Inr (out\<lparr> img_data := d \<rparr>)))
           else if dithering = Ordered4 \<or> dithering = Ordered8 then
             (case newImageData (img_data img) (img_width img) (img_height img) of
                Inl e \<Rightarrow> Inl e
              | Inr out \<Rightarrow>
                 (case foldE (\<lambda>y. foldE (advOrderedPixel pal md dithering ordStrength dAmount (img_width out) y)
                                      [0..<img_width out])
                         [0..<img_height out] (img_data out) of
                    Inl e \<Rightarrow> Inl e
                  | Inr d \<Rightarrow> Inr (out\<lparr> img_data := d \<rparr>)))
           else
             (let w = img_width img; h = img_height img in
              case blankImageData w h of
                Inl e \<Rightarrow> Inl e
              | Inr out \<Rightarrow>
                 (let buf = replicate (w * h * 3) (Some 0 :: num);
                      weights = (if dithering = Atkinson then weightsAtk else weightsFS)
                  in case foldE (\<lambda>y. foldE (advDiffusionPixel w h (img_data img) pal md weights dAmount y (scanDir serp y))
                                         (rowOrder w (scanDir serp y)))
                            [0..<h] (img_data out, buf) of
                       Inl e \<Rightarrow> Inl e
                     | Inr (od, buf') \<Rightarrow> Inr (out\<lparr> img_data := od \<rparr>)))))"

section \<open>Image utilities: the worker-accelerated path\<close>

text \<open>Storing a number into a \<^verbatim>\<open>Uint8Array\<close>: truncation, then modulo 256.\<close>

definition to_u8 :: "real \<Rightarrow> byte" where
  "to_u8 v = word_of_int (if 0 \<le> v then \<lfloor>v\<rfloor> else \<lceil>v\<rceil>)"

definition paletteToFlat :: "rgb list \<Rightarrow> byte list" where
  "paletteToFlat pal = concat (map (\<lambda>(cr, cg, cb). [to_u8 cr, to_u8 cg, to_u8 cb]) pal)"

text \<open>\<^verbatim>\<open>src.slice(a, b)\<close> for \<open>a \<le> b\<close>, and \<^verbatim>\<open>out.set(strip, off)\<close>, which throws a RangeError
  when the strip does not fit.\<close>

definition slice :: "byte list \<Rightarrow> nat \<Rightarrow> nat \<Rightarrow> byte list" where
  "slice xs a b = take (b - a) (drop a xs)"

definition setAt :: "byte list \<Rightarrow> byte list \<Rightarrow> nat \<Rightarrow> error + byte list" where
  "setAt out strip off =
     (if off + length strip > length out then Inl RangeError
      else Inr (take off out @ strip @ drop (off + length strip) out))"

text \<open>
  \<^verbatim>\<open>pool.submit(job)\<close>: a worker runs \<open>onmessage\<close> on the job; the promise resolves with
  the result message or rejects with its error. Jobs do not share state, so the outcome
  of a job does not depend on the worker that runs it or on the order of completion.
\<close>

definition submit :: "QuantizeJob \<Rightarrow> error + nat \<times> nat \<times> byte list" where
  "submit job = (case onmessage job of ErrorMsg e \<Rightarrow> Inl e | ResultMsg ys ye out \<Rightarrow> Inr (ys, ye, out))"

text \<open>
  \<^verbatim>\<open>quantizeToPaletteAdvancedFast(img, palette, opts)\<close>. \<open>poolSize\<close> is the size of the
  \<^verbatim>\<open>QuantPool\<close>, between 1 and 4. The strip loop breaks at the first strip that would
  start at scanline \<open>h\<close> or beyond; each strip result is placed at \<open>yStart*w*4\<close>.
\<close>

definition stripJob ::
    "nat \<Rightarrow> nat \<Rightarrow> byte list \<Rightarrow> byte list \<Rightarrow> DitherMode \<Rightarrow> DistanceMode \<Rightarrow> real \<Rightarrow> bool \<Rightarrow> real \<Rightarrow> int \<Rightarrow>
     nat \<Rightarrow> nat \<Rightarrow> QuantizeJob" where
  "stripJob w h srcArr flat dithering md ordStrength serp dAmount cBits ys ye =
     \<lparr> width = w, height = h, src = slice srcArr (ys * w * 4) (ye * w * 4), palette = flat,
       mode = dithering, distance = md, orderedStrength = Some ordStrength, serpentine = serp,
       yStart = Some ys, yEnd = Some ye, cacheBits = Some cBits, ditherAmount = dAmount \<rparr>"

definition quantizeToPaletteAdvancedFast ::
    "nat \<Rightarrow> ImageData \<Rightarrow> rgb list \<Rightarrow> QuantizeAdvancedOptions \<Rightarrow> error + ImageData" where
  "quantizeToPaletteAdvancedFast poolSize img pal opts =
     (if pal = [] then Inr img
      else
       (let md = (case opt_distance opts of None \<Rightarrow> OKLab | Some v \<Rightarrow> v);
            dithering = (case opt_dithering opts of None \<Rightarrow> NoneMode | Some v \<Rightarrow> v);
            ordStrength = (case opt_orderedStrength opts of None \<Rightarrow> 0.5 | Some v \<Rightarrow> v);
            serp = (case opt_serpentine opts of None \<Rightarrow> True | Some v \<Rightarrow> v);
            dAmount = (case opt_ditherAmount opts of None \<Rightarrow> 1 | Some v \<Rightarrow> v);
            w = img_width img; h = img_height img;
            flat = paletteToFlat pal;
            srcArr = img_data img;
            canParallel = (dithering = NoneMode \<or> dithering = Ordered4 \<or> dithering = Ordered8);
            cBits = (if md = OKLab then 5 else 6 :: int)
        in if canParallel then
             (let strips = min poolSize h;
                  rowsPer = (h + strips - 1) div strips;
                  starts = takeWhile (\<lambda>ys. ys < h) (map (\<lambda>k. k * rowsPer) [0..<strips])
              in case foldE (\<lambda>ys out.
                          (case submit (stripJob w h srcArr flat dithering md ordStrength serp dAmount cBits
                                          ys (min h (ys + rowsPer))) of
                             Inl e \<Rightarrow> Inl e
                           | Inr (rs, re, strip) \<Rightarrow> setAt out strip (ys * w * 4)))
                        starts (replicate (w * h * 4) 0) of
                   Inl e \<Rightarrow> Inl e
                 | Inr out \<Rightarrow> newImageData out w h)
           else
             (case submit \<lparr> width = w, height = h, src = srcArr, palette = flat,
                            mode = dithering, distance = md, orderedStrength = Some ordStrength,
                            serpentine = serp, yStart = None, yEnd = None, cacheBits = Some cBits,
                            ditherAmount = dAmount \<rparr> of
                Inl e \<Rightarrow> Inl e
              | Inr (rs, re, out) \<Rightarrow> newImageData out w h)))"

section \<open>Image utilities: grid detection\<close>

text \<open>
  The difference signal is a \<^verbatim>\<open>Float64Array\<close>, here a list of reals. The model covers
  signals with non-negative entries, which is what \<^verbatim>\<open>computeDiffs\<close> produces (means of
  absolute differences): then \<open>bMean + 1e-6\<close> and \<open>1 + bMean\<close> are positive, and the only
  non-finite value that occurs is \<^verbatim>\<open>+Infinity\<close>, as the mean of an empty non-boundary
  group. Numbers that may be \<^verbatim>\<open>+Infinity\<close> have type \<open>bound\<close>.
\<close>

text \<open>JavaScript's \<^verbatim>\<open>%\<close> on integers, for a non-zero divisor: the sign follows the dividend.\<close>

definition js_rem :: "int \<Rightarrow> int \<Rightarrow> int" where
  "js_rem a b = sgn a * (\<bar>a\<bar> mod \<bar>b\<bar>)"

text \<open>The test of line 37: \<^verbatim>\<open>((i - d) % s + s) % s === s - 1\<close>.\<close>

definition isBoundary :: "nat \<Rightarrow> nat \<Rightarrow> nat \<Rightarrow> bool" where
  "isBoundary s d i = (js_rem (js_rem (int i - int d) (int s) + int s) (int s) = int s - 1)"

text \<open>One iteration of the loop of \<^verbatim>\<open>evaluateScaleOffset1D\<close> on
  \<open>(nonSum, nonCount, bSum, bCount)\<close>.\<close>

definition evalStep :: "real list \<Rightarrow> nat \<Rightarrow> nat \<Rightarrow> nat \<Rightarrow> real \<times> nat \<times> real \<times> nat \<Rightarrow> real \<times> nat \<times> real \<times> nat" where
  "evalStep diff s d i acc =
     (case acc of (nonSum, nonCount, bSum, bCount) \<Rightarrow>
        if isBoundary s d i then (nonSum, nonCount, bSum + diff ! i, bCount + 1)
        else (nonSum + diff ! i, nonCount + 1, bSum, bCount))"

text \<open>\<^verbatim>\<open>evaluateScaleOffset1D(diff, s, d)\<close> returns \<open>(ratio, nonMean, bMean)\<close>.\<close>

definition evaluateScaleOffset1D :: "real list \<Rightarrow> nat \<Rightarrow> nat \<Rightarrow> bound \<times> bound \<times> real" where
  "evaluateScaleOffset1D diff s d =
     (case fold (evalStep diff s d) [0..<length diff] (0, 0, 0, 0) of
        (nonSum, nonCount, bSum, bCount) \<Rightarrow>
          (let nonMean = (if nonCount \<noteq> 0 then Fin (nonSum / real nonCount) else PosInf);
               bMean = (if bCount \<noteq> 0 then bSum / real bCount else 0.000001);
               ratio = (case nonMean of PosInf \<Rightarrow> PosInf | Fin v \<Rightarrow> Fin (v / (bMean + 0.000001)))
           in (ratio, nonMean, bMean)))"

text \<open>\<^verbatim>\<open>ratio - 0.05 * Math.log(1 + bMean)\<close>, and \<^verbatim>\<open><\<close> on such scores.\<close>

definition score :: "bound \<Rightarrow> real \<Rightarrow> bound" where
  "score ratio bMean = (case ratio of PosInf \<Rightarrow> PosInf | Fin v \<Rightarrow> Fin (v - 0.05 * ln (1 + bMean)))"

fun bound_less :: "bound \<Rightarrow> bound \<Rightarrow> bool" where
  "bound_less (Fin x) (Fin y) = (x < y)"
| "bound_less (Fin x) PosInf = True"
| "bound_less PosInf _ = False"

text \<open>The record \<^verbatim>\<open>best\<close> of \<^verbatim>\<open>detectAxis\<close>: \<^verbatim>\<open>{ s, d, ratio, non, bound }\<close>.\<close>

record DetectBest =
  best_s :: nat
  best_d :: nat
  best_ratio :: bound
  best_non :: bound
  best_bound :: real

text \<open>The body of the inner loop of \<^verbatim>\<open>detectAxis\<close> (lines 50-54).\<close>

definition detectStep :: "real list \<Rightarrow> nat \<Rightarrow> nat \<Rightarrow> DetectBest \<Rightarrow> DetectBest" where
  "detectStep diff s d best =
     (case evaluateScaleOffset1D diff s d of
        (ratio, nonMean, bMean) \<Rightarrow>
          if bound_less (score ratio bMean) (score (best_ratio best) (best_bound best))
          then \<lparr> best_s = s, best_d = d, best_ratio = ratio, best_non = nonMean, best_bound = bMean \<rparr>
          else best)"

definition detectAxis :: "real list \<Rightarrow> nat \<Rightarrow> DetectBest" where
  "detectAxis diff maxS =
     fold (\<lambda>s. fold (detectStep diff s) [0..<s]) [2..<Suc maxS]
          \<lparr> best_s = 1, best_d = 0, best_ratio = PosInf, best_non = Fin 0, best_bound = 0 \<rparr>"

section \<open>Image utilities: block averaging\<close>

text \<open>\<^verbatim>\<open>Math.round\<close>: the nearest integer, halves upwards.\<close>

definition Math_round :: "real \<Rightarrow> int" where
  "Math_round v = \<lfloor>v + 1/2\<rfloor>"

text \<open>Reading a byte of the image as an integer; \<^verbatim>\<open>undefined\<close> out of range.\<close>

definition u8_nat :: "byte list \<Rightarrow> nat \<Rightarrow> nat option" where
  "u8_nat xs i = (if i < length xs then Some (unat (xs ! i)) else None)"

text \<open>
  The body of the two inner loops of \<^verbatim>\<open>rebuildBase\<close> (lines 75-82) on
  \<open>(rSum, gSum, bSum, aSum, count, transparentPixelCount)\<close>. \<^verbatim>\<open>undefined >= 128\<close> is
  false. When the alpha byte at \<open>i + 3\<close> exists, so do the bytes at \<open>i\<close>, \<open>i + 1\<close>, \<open>i + 2\<close>.
\<close>

definition blockStep ::
    "byte list \<Rightarrow> nat \<Rightarrow> nat \<Rightarrow> nat \<Rightarrow> nat \<Rightarrow> nat \<Rightarrow> nat \<times> nat \<times> nat \<times> nat \<times> nat \<times> nat \<Rightarrow> nat \<times> nat \<times> nat \<times> nat \<times> nat \<times> nat" where
  "blockStep d w startX startY yy xx acc =
     (case acc of (rSum, gSum, bSum, aSum, cnt, tpc) \<Rightarrow>
       (let yIdx = (startY + yy) * w * 4;
            i = yIdx + (startX + xx) * 4
        in case u8_nat d (i + 3) of
             None \<Rightarrow> (rSum, gSum, bSum, aSum, cnt, tpc + 1)
           | Some alpha \<Rightarrow>
               if alpha \<ge> 128
               then (rSum + unat (d ! i), gSum + unat (d ! (i + 1)), bSum + unat (d ! (i + 2)), aSum + alpha, cnt + 1, tpc)
               else (rSum, gSum, bSum, aSum, cnt, tpc + 1)))"

text \<open>
  The body of the two outer loops (lines 71-92) for block \<open>(bx, by)\<close>, on the output bytes
  and the running \<^verbatim>\<open>transparentPixelCount\<close>.
\<close>

definition blockPixel ::
    "byte list \<Rightarrow> nat \<Rightarrow> nat \<Rightarrow> nat \<Rightarrow> nat \<Rightarrow> nat \<Rightarrow> nat \<Rightarrow> nat \<Rightarrow> nat \<Rightarrow> byte list \<times> nat \<Rightarrow> byte list \<times> nat" where
  "blockPixel d w sX sY x0 y0 wOut by bx st =
     (case st of (outData, tpc0) \<Rightarrow>
       (let startX = x0 + bx * sX; startY = y0 + by * sY in
        case fold (\<lambda>yy. fold (blockStep d w startX startY yy) [0..<sX]) [0..<sY] (0, 0, 0, 0, 0, tpc0) of
          (rSum, gSum, bSum, aSum, cnt, tpc) \<Rightarrow>
            (let off = (by * wOut + bx) * 4 in
             if cnt > 0 then
               (outData[off := to_u8c (Some (real_of_int (Math_round (real rSum / real cnt)))),
                        off + 1 := to_u8c (Some (real_of_int (Math_round (real gSum / real cnt)))),
                        off + 2 := to_u8c (Some (real_of_int (Math_round (real bSum / real cnt)))),
                        off + 3 := to_u8c (Some (real_of_int (Math_round (real aSum / real cnt))))], tpc)
             else (outData[off := 0, off + 1 := 0, off + 2 := 0, off + 3 := 0], tpc))))"

record Crop =
  crop_x0 :: nat
  crop_y0 :: nat
  wCrop :: nat
  hCrop :: nat
  wOut :: nat
  hOut :: nat

record BuildResult =
  baseImageData :: ImageData
  crop :: Crop
  transparentPixelCount :: nat

text \<open>
  \<^verbatim>\<open>rebuildBase(imgData, sX, sY, dX, dY)\<close>, for scales and offsets that are natural
  numbers. With a zero scale the block count is infinite or NaN, which \<^verbatim>\<open>new ImageData\<close>
  converts to 0 and rejects, as it rejects a block count of 0; a negative block count
  does not give an image either.
\<close>

definition rebuildBase :: "ImageData \<Rightarrow> nat \<Rightarrow> nat \<Rightarrow> nat \<Rightarrow> nat \<Rightarrow> error + BuildResult" where
  "rebuildBase imgData sX sY dX dY =
     (let w = img_width imgData; h = img_height imgData; d = img_data imgData;
          x0 = dX; y0 = dY
      in if sX = 0 \<or> sY = 0 then Inl IndexSizeError
         else
          (let wBlocks = (int w - int x0) div int sX;
               hBlocks = (int h - int y0) div int sY
           in if wBlocks = 0 \<or> hBlocks = 0 then Inl IndexSizeError
              else if wBlocks < 0 \<or> hBlocks < 0 then Inl RangeError
              else
               (case blankImageData (nat wBlocks) (nat hBlocks) of
                  Inl e \<Rightarrow> Inl e
                | Inr out \<Rightarrow>
                   (case fold (\<lambda>by. fold (blockPixel d w sX sY x0 y0 (nat wBlocks) by) [0..<nat wBlocks])
                           [0..<nat hBlocks] (img_data out, 0) of
                      (outData, tpc) \<Rightarrow>
                        Inr \<lparr> baseImageData = out\<lparr> img_data := outData \<rparr>,
                              crop = \<lparr> crop_x0 = x0, crop_y0 = y0,
                                       wCrop = nat wBlocks * sX, hCrop = nat hBlocks * sY,
                                       wOut = nat wBlocks, hOut = nat hBlocks \<rparr>,
                              transparentPixelCount = tpc \<rparr>))))"

section \<open>Notions used to state the properties\<close>

text \<open>The colour of pixel number \<open>p\<close> of a source buffer, as the worker reads it.\<close>

definition srcColour :: "byte list \<Rightarrow> nat \<Rightarrow> num \<times> num \<times> num" where
  "srcColour srcArr p = (u8_get srcArr (p * 4), u8_get srcArr (p * 4 + 1), u8_get srcArr (p * 4 + 2))"

text \<open>The index the full scan returns for a colour (0 where the scan throws).\<close>

definition exactIdx :: "PalettePrepared \<Rightarrow> DistanceMode \<Rightarrow> num \<times> num \<times> num \<Rightarrow> nat" where
  "exactIdx prep dm c = (case c of (r, g, b) \<Rightarrow> (case fullScan r g b prep dm of Inl e \<Rightarrow> 0 | Inr i \<Rightarrow> i))"

text \<open>The cache key of a colour.\<close>

definition keyOf :: "LUT \<Rightarrow> num \<times> num \<times> num \<Rightarrow> int" where
  "keyOf l c = (case c of (r, g, b) \<Rightarrow> lut_key l r g b)"

text \<open>The four bytes the worker writes for palette index \<open>idx\<close>.\<close>

definition paletteQuad :: "PalettePrepared \<Rightarrow> nat \<Rightarrow> byte list" where
  "paletteQuad prep idx =
     [to_u8c (u8_get (pr prep) idx), to_u8c (u8_get (pg prep) idx), to_u8c (u8_get (pb prep) idx), 255]"

text \<open>The loop body of \<^verbatim>\<open>doNoneOrOrdered\<close> in mode \<^verbatim>\<open>'none'\<close>, by strip-local pixel number.\<close>

definition nonePixelAt ::
    "byte list \<Rightarrow> PalettePrepared \<Rightarrow> DistanceMode \<Rightarrow> nat \<Rightarrow> LUT option \<times> byte list \<Rightarrow> error + LUT option \<times> byte list" where
  "nonePixelAt srcArr prep dm p st =
     (case st of (lo, out) \<Rightarrow>
      case srcColour srcArr p of (r, g, b) \<Rightarrow>
      case nearestIdx r g b prep dm lo of
        Inl e \<Rightarrow> Inl e
      | Inr (idx, lo') \<Rightarrow> Inr (lo', writePixel prep idx (p * 4) out))"

text \<open>A cache is sound for a set of colours when every index it holds for one of them is
  the one the full scan returns.\<close>

definition lutSound :: "PalettePrepared \<Rightarrow> DistanceMode \<Rightarrow> (num \<times> num \<times> num) set \<Rightarrow> LUT \<Rightarrow> bool" where
  "lutSound prep dm C l =
     (\<forall>c\<in>C. \<forall>v. lut_get (lut_tab l) (keyOf l c) = Some v \<and> 0 \<le> v \<longrightarrow> nat v = exactIdx prep dm c)"

text \<open>A set of colours is consistent when colours with the same cache key have the same
  full-scan index.\<close>

definition consistentOn :: "PalettePrepared \<Rightarrow> DistanceMode \<Rightarrow> LUT \<Rightarrow> (num \<times> num \<times> num) set \<Rightarrow> bool" where
  "consistentOn prep dm l C =
     (\<forall>c\<in>C. \<forall>c'\<in>C. keyOf l c = keyOf l c' \<longrightarrow> exactIdx prep dm c = exactIdx prep dm c')"

text \<open>\<^verbatim>\<open>job.cacheBits ?? 5\<close>\<close>

definition jobBits :: "QuantizeJob \<Rightarrow> int" where
  "jobBits job = (case cacheBits job of None \<Rightarrow> 5 | Some v \<Rightarrow> v)"

text \<open>
  The frame of a job is bucket-consistent when any two of its \<open>width * height\<close> pixels
  that fall into the same bucket of the job's cache have the same full-scan index.
\<close>

definition bucketConsistent :: "QuantizeJob \<Rightarrow> bool" where
  "bucketConsistent job =
     (let prep = buildPalettePrepared (palette job) (distance job);
          l0 = \<lparr> lut_tab = [], lut_bits = jobBits job, lut_shift = 8 - jobBits job \<rparr>;
          cols = map (srcColour (src job)) [0..<width job * height job]
      in list_all (\<lambda>c. list_all (\<lambda>c'. keyOf l0 c = keyOf l0 c' \<longrightarrow>
                     exactIdx prep (distance job) c = exactIdx prep (distance job) c') cols) cols)"

text \<open>
  A partition of the scanlines from \<open>a\<close> up to \<open>b\<close> into contiguous strips
  \<open>[yStart, yEnd)\<close>, listed in order.
\<close>

fun chain :: "nat \<Rightarrow> (nat \<times> nat) list \<Rightarrow> nat \<Rightarrow> bool" where
  "chain a [] b = (a = b)"
| "chain a ((ys, ye) # rest) b = (ys = a \<and> ys \<le> ye \<and> chain ye rest b)"

text \<open>Joining the strips of a list of results in list order; a failed job makes the
  whole fail.\<close>

fun concatResults :: "(error + byte list) list \<Rightarrow> error + byte list" where
  "concatResults [] = Inr []"
| "concatResults (r # rs) =
     (case r of Inl e \<Rightarrow> Inl e
      | Inr x \<Rightarrow> (case concatResults rs of Inl e \<Rightarrow> Inl e | Inr y \<Rightarrow> Inr (x @ y)))"

text \<open>
  The distance of the spec between two colours: squared Euclidean distance of the
  \<open>(r, g, b)\<close> triples for the RGB metric, and of their OKLab coordinates for the OKLab
  metric.
\<close>

definition sqDist3 :: "real \<times> real \<times> real \<Rightarrow> real \<times> real \<times> real \<Rightarrow> real" where
  "sqDist3 u v = (case u of (u1, u2, u3) \<Rightarrow> case v of (v1, v2, v3) \<Rightarrow>
                    (u1 - v1) * (u1 - v1) + (u2 - v2) * (u2 - v2) + (u3 - v3) * (u3 - v3))"

definition colourDist :: "DistanceMode \<Rightarrow> real \<times> real \<times> real \<Rightarrow> real \<times> real \<times> real \<Rightarrow> real" where
  "colourDist dm c c' =
     (case dm of
        RGB \<Rightarrow> sqDist3 c c'
      | OKLab \<Rightarrow> (case c of (r, g, b) \<Rightarrow> case c' of (r', g', b') \<Rightarrow>
                    sqDist3 (rgbToOklab r g b) (rgbToOklab r' g' b')))"

text \<open>Entry \<open>i\<close> of a flat palette, and the distance of a colour to it.\<close>

definition paletteEntry :: "byte list \<Rightarrow> nat \<Rightarrow> real \<times> real \<times> real" where
  "paletteEntry pFlat i = (byte_val (pFlat ! (i * 3)), byte_val (pFlat ! (i * 3 + 1)), byte_val (pFlat ! (i * 3 + 2)))"

definition metricDist :: "byte list \<Rightarrow> DistanceMode \<Rightarrow> real \<times> real \<times> real \<Rightarrow> nat \<Rightarrow> real" where
  "metricDist pFlat dm c i = colourDist dm c (paletteEntry pFlat i)"

text \<open>A cache state of the cache that \<open>makeLUT bits0\<close> creates: the same parameters and
  the same number of entries, with any contents.\<close>

definition cacheState :: "int \<Rightarrow> LUT \<Rightarrow> bool" where
  "cacheState bits0 l =
     (case makeLUT bits0 of
        Inl e \<Rightarrow> False
      | Inr l0 \<Rightarrow> lut_bits l = lut_bits l0 \<and> lut_shift l = lut_shift l0 \<and> length (lut_tab l) = length (lut_tab l0))"

text \<open>Example palettes: black, grey 200 and black again, flat and as colour objects.\<close>

definition ex_flat :: "byte list" where
  "ex_flat = [0, 0, 0, 200, 200, 200, 0, 0, 0]"

definition ex_pal :: "rgb list" where
  "ex_pal = [(0, 0, 0), (200, 200, 200), (0, 0, 0)]"

text \<open>The colour of pixel number \<open>k\<close> of an RGBA buffer that holds it.\<close>

definition pixelColour :: "byte list \<Rightarrow> nat \<Rightarrow> real \<times> real \<times> real" where
  "pixelColour d k = (byte_val (d ! (k * 4)), byte_val (d ! (k * 4 + 1)), byte_val (d ! (k * 4 + 2)))"

text \<open>Example inputs: an image and a job of one column and two rows, black over grey 200.\<close>

definition ex_img :: ImageData where
  "ex_img = \<lparr> img_width = 1, img_height = 2, img_data = [0, 0, 0, 128, 200, 200, 200, 255] \<rparr>"

definition ex_opts :: QuantizeAdvancedOptions where
  "ex_opts = \<lparr> opt_distance = Some RGB, opt_dithering = Some NoneMode, opt_orderedStrength = None,
               opt_serpentine = None, opt_ditherAmount = None \<rparr>"

definition ex_job :: QuantizeJob where
  "ex_job = \<lparr> width = 1, height = 2, src = [0, 0, 0, 255, 200, 200, 200, 255], palette = ex_flat,
       mode = NoneMode, distance = RGB, orderedStrength = Some 0.5, serpentine = True,
       yStart = None, yEnd = None, cacheBits = Some 6, ditherAmount = 1 \<rparr>"

text \<open>
  A malformed job: the frame is one column by two rows, so the source ought to hold 8
  bytes, but it holds 4; and the palette is empty.
\<close>

definition short_job :: QuantizeJob where
  "short_job = \<lparr> width = 1, height = 2, src = [10, 20, 30, 255], palette = [],
       mode = NoneMode, distance = RGB, orderedStrength = Some 0.5, serpentine = True,
       yStart = None, yEnd = None, cacheBits = Some 6, ditherAmount = 1 \<rparr>"

text \<open>
  Error diffusion. The value of an accumulator entry, what an entry gains from one
  diffusion step, and the total gained by channel \<open>c\<close> over all pixels of the frame.
\<close>

definition num_val :: "num \<Rightarrow> real" where
  "num_val v = (case v of None \<Rightarrow> 0 | Some r \<Rightarrow> r)"

definition gain :: "num list \<Rightarrow> num list \<Rightarrow> nat \<Rightarrow> real" where
  "gain buf buf' k = num_val (buf' ! k) - num_val (buf ! k)"

definition totalGain :: "nat \<Rightarrow> nat \<Rightarrow> num list \<Rightarrow> num list \<Rightarrow> nat \<Rightarrow> real" where
  "totalGain w h buf buf' c = (\<Sum>p<w * h. gain buf buf' (p * 3 + c))"

text \<open>The six neighbours of the Atkinson kernel, as offsets from the current pixel.\<close>

definition atkinsonOffsets :: "int \<Rightarrow> (int \<times> int) list" where
  "atkinsonOffsets dir = [(dir, 0), (2 * dir, 0), (- dir, 1), (0, 1), (dir, 1), (0, 2)]"

text \<open>
  The neighbour \<open>(x + dx*dir, y + dy)\<close> lies in the frame; and what the weight
  \<open>(dx, dy, f)\<close> adds to entry \<open>k\<close> of the accumulator, for the error \<open>es\<close>.
\<close>

definition inFrameAt :: "nat \<Rightarrow> nat \<Rightarrow> nat \<Rightarrow> nat \<Rightarrow> int \<Rightarrow> int \<Rightarrow> int \<Rightarrow> bool" where
  "inFrameAt w h x y dir dx dy =
     (0 \<le> int x + dx * dir \<and> int x + dx * dir < int w \<and> 0 \<le> int y + dy \<and> int y + dy < int h)"

definition contrib :: "nat \<Rightarrow> nat \<Rightarrow> nat \<Rightarrow> nat \<Rightarrow> int \<Rightarrow> real list \<Rightarrow> int \<times> int \<times> real \<Rightarrow> nat \<Rightarrow> real" where
  "contrib w h x y dir es wt k =
     (case wt of (dx, dy, f) \<Rightarrow>
        if inFrameAt w h x y dir dx dy
           \<and> nat (((int y + dy) * int w + (int x + dx * dir)) * 3) \<le> k
           \<and> k < nat (((int y + dy) * int w + (int x + dx * dir)) * 3) + 3
        then es ! (k - nat (((int y + dy) * int w + (int x + dx * dir)) * 3)) * f
        else 0)"

text \<open>Example: the empty accumulator of a frame of five columns and three rows.\<close>

definition ex_buf :: "num list" where
  "ex_buf = replicate 45 (Some 0)"

text \<open>
  Block averaging, as the specification words it. A pixel is its four channel values; the
  block \<open>(bx, by)\<close> of an image is the list of the \<open>sX * sY\<close> pixels it covers; the pixels
  included in the average are those with alpha at least 128; the average of a block is
  the rounded arithmetic mean of each channel over the included pixels, and \<open>(0,0,0,0)\<close>
  when no pixel is included.
\<close>

type_synonym rgba = "nat \<times> nat \<times> nat \<times> nat"

definition pixelAt :: "ImageData \<Rightarrow> nat \<Rightarrow> nat \<Rightarrow> rgba" where
  "pixelAt img x y =
     (let i = (y * img_width img + x) * 4; d = img_data img
      in (unat (d ! i), unat (d ! (i + 1)), unat (d ! (i + 2)), unat (d ! (i + 3))))"

definition blockOf :: "ImageData \<Rightarrow> nat \<Rightarrow> nat \<Rightarrow> nat \<Rightarrow> nat \<Rightarrow> nat \<Rightarrow> nat \<Rightarrow> rgba list" where
  "blockOf img sX sY dX dY bx by =
     concat (map (\<lambda>yy. map (\<lambda>xx. pixelAt img (dX + bx * sX + xx) (dY + by * sY + yy)) [0..<sX]) [0..<sY])"

definition alphaOf :: "rgba \<Rightarrow> nat" where
  "alphaOf p = (case p of (r, g, b, a) \<Rightarrow> a)"

definition included :: "rgba list \<Rightarrow> rgba list" where
  "included ps = filter (\<lambda>p. alphaOf p \<ge> 128) ps"

definition roundedMean :: "nat list \<Rightarrow> nat" where
  "roundedMean xs = nat (round (real (sum_list xs) / real (length xs)))"

definition spec_blockAverage :: "rgba list \<Rightarrow> rgba" where
  "spec_blockAverage ps =
     (let inc = included ps in
      if inc = [] then (0, 0, 0, 0)
      else (roundedMean (map (\<lambda>(r, g, b, a). r) inc), roundedMean (map (\<lambda>(r, g, b, a). g) inc),
            roundedMean (map (\<lambda>(r, g, b, a). b) inc), roundedMean (map (\<lambda>(r, g, b, a). a) inc)))"

text \<open>What \<open>blockStep\<close> does with a pixel, given the pixel rather than its position.\<close>

definition accPixel :: "rgba \<Rightarrow> nat \<times> nat \<times> nat \<times> nat \<times> nat \<times> nat \<Rightarrow> nat \<times> nat \<times> nat \<times> nat \<times> nat \<times> nat" where
  "accPixel p acc =
     (case p of (r, g, b, a) \<Rightarrow>
      case acc of (rSum, gSum, bSum, aSum, cnt, tpc) \<Rightarrow>
        if a \<ge> 128 then (rSum + r, gSum + g, bSum + b, aSum + a, cnt + 1, tpc)
        else (rSum, gSum, bSum, aSum, cnt, tpc + 1))"

text \<open>
  Example: an image of four columns and two rows, that is two blocks of scale 2. Half of
  the pixels of the left block are below the alpha threshold; all pixels of the right
  block are.
\<close>

definition ex_rgba :: ImageData where
  "ex_rgba = \<lparr> img_width = 4, img_height = 2,
       img_data = [10, 20, 30, 255,  99, 99, 99, 0,    50, 60, 70, 127,  1, 2, 3, 0,
                   77, 77, 77, 127,  20, 40, 60, 200,  9, 9, 9, 100,     255, 255, 255, 5] \<rparr>"

text \<open>
  Grid detection, as the specification words it. Position \<open>i\<close> of the signal is a
  boundary position for scale \<open>s\<close> and offset \<open>d\<close> when \<open>(i - d) mod s = s - 1\<close>.
\<close>

definition spec_boundary :: "nat \<Rightarrow> nat \<Rightarrow> nat \<Rightarrow> bool" where
  "spec_boundary s d i = ((int i - int d) mod int s = int s - 1)"

definition boundaryPositions :: "real list \<Rightarrow> nat \<Rightarrow> nat \<Rightarrow> nat list" where
  "boundaryPositions diff s d = filter (spec_boundary s d) [0..<length diff]"

definition nonBoundaryPositions :: "real list \<Rightarrow> nat \<Rightarrow> nat \<Rightarrow> nat list" where
  "nonBoundaryPositions diff s d = filter (\<lambda>i. \<not> spec_boundary s d i) [0..<length diff]"

text \<open>
  The mean of the signal over a list of positions; the boundary mean and the non-boundary
  mean of a candidate, with the conventions of the code for an empty group: \<open>1e-6\<close> for
  the boundary mean, \<^verbatim>\<open>+Infinity\<close> for the non-boundary mean.
\<close>

definition meanAt :: "real list \<Rightarrow> nat list \<Rightarrow> real" where
  "meanAt diff ps = sum_list (map (\<lambda>i. diff ! i) ps) / real (length ps)"

definition spec_bMean :: "real list \<Rightarrow> nat \<Rightarrow> nat \<Rightarrow> real" where
  "spec_bMean diff s d =
     (if boundaryPositions diff s d = [] then 0.000001 else meanAt diff (boundaryPositions diff s d))"

definition spec_nonMean :: "real list \<Rightarrow> nat \<Rightarrow> nat \<Rightarrow> bound" where
  "spec_nonMean diff s d =
     (if nonBoundaryPositions diff s d = [] then PosInf else Fin (meanAt diff (nonBoundaryPositions diff s d)))"

text \<open>\<open>ratio = nonBoundaryMean / (boundaryMean + \<epsilon>)\<close> and the score \<open>ratio - 0.05 * log (1 + boundaryMean)\<close>.\<close>

definition spec_ratio :: "real list \<Rightarrow> nat \<Rightarrow> nat \<Rightarrow> bound" where
  "spec_ratio diff s d =
     (case spec_nonMean diff s d of PosInf \<Rightarrow> PosInf
      | Fin v \<Rightarrow> Fin (v / (spec_bMean diff s d + 0.000001)))"

definition spec_score :: "real list \<Rightarrow> nat \<Rightarrow> nat \<Rightarrow> bound" where
  "spec_score diff s d =
     (case spec_ratio diff s d of PosInf \<Rightarrow> PosInf
      | Fin v \<Rightarrow> Fin (v - 0.05 * ln (1 + spec_bMean diff s d)))"

text \<open>The candidates \<open>(s, d)\<close> in the order the two loops of \<^verbatim>\<open>detectAxis\<close> visit them.\<close>

definition gridCandidates :: "nat \<Rightarrow> (nat \<times> nat) list" where
  "gridCandidates maxS = concat (map (\<lambda>s. map (Pair s) [0..<s]) [2..<Suc maxS])"

text \<open>Example: a signal of period 3.\<close>

definition ex_diff :: "real list" where
  "ex_diff = [0, 0, 9, 0, 0, 9]"

section \<open>Basic facts about bytes and numbers\<close>

lemma round_half_even_of_int [simp]: "round_half_even (of_int k) = k"
  by (simp add: round_half_even_def)

lemma byte_val_range: "0 \<le> byte_val v \<and> byte_val v \<le> 255"
proof -
  have "unat v < 256" using unsigned_less [of v] by simp
  then have "real (unat v) \<le> 255" by linarith
  moreover have "0 \<le> real (unat v)" by (rule of_nat_0_le_iff)
  ultimately show ?thesis unfolding byte_val_def by blast
qed

lemma byte_val_of_int: "byte_val v = of_int (uint v)"
  unfolding byte_val_def by simp

lemma to_u8c_byte [simp]: "to_u8c (Some (byte_val v)) = v"
proof -
  have "\<not> byte_val v < 0" "\<not> 255 < byte_val v" using byte_val_range [of v] by auto
  then have "to_u8c (Some (byte_val v)) = word_of_int (round_half_even (byte_val v))"
    by (simp add: to_u8c_def)
  also have "\<dots> = word_of_int (round_half_even (of_int (uint v)))"
    by (simp only: byte_val_of_int)
  also have "\<dots> = v"
    by (simp only: round_half_even_of_int) simp
  finally show ?thesis .
qed

lemma to_u8c_u8_get: "to_u8c (u8_get xs i) = (if i < length xs then xs ! i else 0)"
  by (simp add: u8_get_def to_u8c_def [of None])

lemma u8_get_range: "u8_get xs i = Some v \<Longrightarrow> 0 \<le> v \<and> v \<le> 255"
  using byte_val_range by (auto simp add: u8_get_def split: if_splits)

lemma clamp255_zero: "clamp255 (Some 0) = Some 0"
  by (simp add: clamp255_def)

lemma clamp255_add_zero_u8: "clamp255 (num_add (u8_get xs i) (Some 0)) = u8_get xs i"
proof (cases "u8_get xs i")
  case None
  then show ?thesis by (simp add: clamp255_def num_add_def)
next
  case (Some v)
  with u8_get_range [OF Some] show ?thesis by (simp add: clamp255_def num_add_def)
qed

section \<open>Ordered dithering with strength 0\<close>

lemma orderedPerturb_zero:
  "orderedPerturb md (Some 0) y x (u8_get s i, u8_get s j, u8_get s k) = (u8_get s i, u8_get s j, u8_get s k)"
  by (simp add: orderedPerturb_def Let_def num_mul_def num_sub_def clamp255_add_zero_u8)

lemma orderedPerturb_none: "orderedPerturb NoneMode st y x c = c"
  by (simp add: orderedPerturb_def split: prod.splits)

lemma noneOrOrderedPixel_zero:
  "noneOrOrderedPixel w s prep dm md (Some 0) y0 y = noneOrOrderedPixel w s prep dm NoneMode st y0 y"
  by (intro ext) (simp add: noneOrOrderedPixel_def Let_def orderedPerturb_zero orderedPerturb_none split: prod.splits)

lemma noneOrOrderedLoops_zero:
  "noneOrOrderedLoops w s prep dm md (Some 0) y0 y1 = noneOrOrderedLoops w s prep dm NoneMode st y0 y1"
  by (rule ext) (simp add: noneOrOrderedLoops_def noneOrOrderedPixel_zero [where st = st])

lemma doNoneOrOrdered_zero_strength:
  "doNoneOrOrdered (job\<lparr> mode := md, orderedStrength := Some 0 \<rparr>) = doNoneOrOrdered (job\<lparr> mode := NoneMode \<rparr>)"
  by (simp add: doNoneOrOrdered_def Let_def clamp255_zero
      noneOrOrderedLoops_zero [where st = "clamp255 (Some (255 * (case orderedStrength job of None \<Rightarrow> 0.5 | Some v \<Rightarrow> v)))"]
      cong: sum.case_cong)

section \<open>The worker does not read ditherAmount\<close>

text \<open>
  Claim C10. Two jobs that differ only in the \<open>ditherAmount\<close> property of the message get
  the same answer from the worker, in every mode: the result message (strip range and
  output bytes) or the error message is the same.
\<close>

theorem worker_ignores_ditherAmount:
  "onmessage (job\<lparr> ditherAmount := a \<rparr>) = onmessage (job\<lparr> ditherAmount := b \<rparr>)"
proof -
  have strip: "doNoneOrOrdered (job\<lparr> ditherAmount := c \<rparr>) = doNoneOrOrdered job" for c
    by (simp add: doNoneOrOrdered_def Let_def cong: sum.case_cong)
  have diffusion: "doDiffusion (job\<lparr> ditherAmount := c \<rparr>) = doDiffusion job" for c
    by (simp add: doDiffusion_def Let_def cong: sum.case_cong if_cong)
  have "onmessage (job\<lparr> ditherAmount := c \<rparr>) = onmessage job" for c
    by (simp add: onmessage_def strip diffusion cong: sum.case_cong option.case_cong)
  then show ?thesis by simp
qed

section \<open>Loops with errors\<close>

lemma foldE_append:
  "foldE f (xs @ ys) s = (case foldE f xs s of Inl e \<Rightarrow> Inl e | Inr s' \<Rightarrow> foldE f ys s')"
  by (induction xs arbitrary: s) (auto split: sum.splits)

lemma foldE_snoc:
  "foldE f (xs @ [x]) s = (case foldE f xs s of Inl e \<Rightarrow> Inl e | Inr s' \<Rightarrow> f x s')"
  by (simp add: foldE_append split: sum.splits)

lemma foldE_cong:
  "(\<And>x s. x \<in> set xs \<Longrightarrow> f x s = g x s) \<Longrightarrow> foldE f xs s = foldE g xs s"
  by (induction xs arbitrary: s) (auto split: sum.splits)

lemma foldE_map: "foldE f (map h xs) s = foldE (\<lambda>x. f (h x)) xs s"
  by (induction xs arbitrary: s) (auto split: sum.splits)

lemma upt_add_eq_map: "[a..<a + k] = map (\<lambda>x. a + x) [0..<k]"
  by (induction k) simp_all

lemma foldE_rows_flat:
  assumes "\<And>y x s. y0 \<le> y \<Longrightarrow> x < w \<Longrightarrow> f y x s = g ((y - y0) * w + x) s"
  shows "foldE (\<lambda>y. foldE (f y) [0..<w]) [y0..<y0 + m] s = foldE g [0..<m * w] s"
proof (induction m arbitrary: s)
  case 0
  then show ?case by simp
next
  case (Suc m)
  have row: "foldE (f (y0 + m)) [0..<w] t = foldE g [m * w..<m * w + w] t" for t
  proof -
    have "foldE g [m * w..<m * w + w] t = foldE (\<lambda>x. g (m * w + x)) [0..<w] t"
      by (simp only: upt_add_eq_map [of "m * w" w] foldE_map)
    also have "\<dots> = foldE (f (y0 + m)) [0..<w] t"
      by (rule foldE_cong) (simp add: assms)
    finally show ?thesis by simp
  qed
  have rng: "[0..<Suc m * w] = [0..<m * w] @ [m * w..<m * w + w]"
    by (metis add.commute mult_Suc upt_add_eq_append zero_le)
  have "foldE (\<lambda>y. foldE (f y) [0..<w]) [y0..<y0 + Suc m] s =
        (case foldE (\<lambda>y. foldE (f y) [0..<w]) [y0..<y0 + m] s of Inl e \<Rightarrow> Inl e
         | Inr s' \<Rightarrow> foldE (f (y0 + m)) [0..<w] s')"
    by (simp add: foldE_append split: sum.splits)
  also have "\<dots> = (case foldE g [0..<m * w] s of Inl e \<Rightarrow> Inl e
         | Inr s' \<Rightarrow> foldE g [m * w..<m * w + w] s')"
    by (simp add: Suc.IH row cong: sum.case_cong)
  also have "\<dots> = foldE g [0..<Suc m * w] s"
    by (simp only: rng foldE_append)
  finally show ?case .
qed

section \<open>The cache under bucket-consistency\<close>

lemma noneOrOrderedPixel_none:
  "noneOrOrderedPixel w srcArr prep dm NoneMode st y0 y x = nonePixelAt srcArr prep dm ((y - y0) * w + x)"
  by (intro ext) (simp add: noneOrOrderedPixel_def nonePixelAt_def srcColour_def Let_def orderedPerturb_none split: prod.splits)

lemma built_simps [simp]:
  "pn (buildPalettePrepared pal dm) = length pal div 3"
  "length (pr (buildPalettePrepared pal dm)) = length pal div 3"
  "length (pg (buildPalettePrepared pal dm)) = length pal div 3"
  "length (pb (buildPalettePrepared pal dm)) = length pal div 3"
  by (simp_all add: buildPalettePrepared_def Let_def)

lemma built_oklab:
  "\<exists>l a b. pL (buildPalettePrepared pal OKLab) = Some l \<and> pA (buildPalettePrepared pal OKLab) = Some a
      \<and> pB (buildPalettePrepared pal OKLab) = Some b"
  by (simp add: buildPalettePrepared_def Let_def)

lemma fullScan_built:
  "fullScan r g b (buildPalettePrepared pal dm) dm = Inr (exactIdx (buildPalettePrepared pal dm) dm (r, g, b))"
proof (cases dm)
  case RGB
  then show ?thesis by (simp add: fullScan_def exactIdx_def)
next
  case OKLab
  obtain l a b' where "pL (buildPalettePrepared pal OKLab) = Some l" "pA (buildPalettePrepared pal OKLab) = Some a"
      "pB (buildPalettePrepared pal OKLab) = Some b'"
    using built_oklab by blast
  with OKLab show ?thesis by (simp add: fullScan_def exactIdx_def)
qed

lemma lut_get_set:
  "lut_get (lut_set tab k v) k' = (if k' = k \<and> 0 \<le> k \<and> k < int (length tab) then Some v else lut_get tab k')"
  by (auto simp add: lut_get_def lut_set_def nat_eq_iff)

lemma lut_key_update [simp]: "lut_key (l\<lparr> lut_tab := t \<rparr>) = lut_key l"
  by (intro ext) (simp add: lut_key_def)

lemma nearestIdx_sound:
  assumes prep: "prep = buildPalettePrepared pal dm"
    and cons: "consistentOn prep dm l C"
    and sound: "lutSound prep dm C l"
    and c: "(r, g, b) \<in> C"
  shows "\<exists>l'. nearestIdx r g b prep dm (Some l) = Inr (exactIdx prep dm (r, g, b), Some l')
            \<and> lutSound prep dm C l' \<and> lut_bits l' = lut_bits l \<and> lut_shift l' = lut_shift l"
proof (cases "cachedIdx (Some l) r g b")
  case (Some i)
  then obtain v where v: "lut_get (lut_tab l) (lut_key l r g b) = Some v" "0 \<le> v" "i = nat v"
    by (auto simp add: cachedIdx_def split: option.splits if_splits)
  with sound c have "i = exactIdx prep dm (r, g, b)"
    by (auto simp add: lutSound_def keyOf_def)
  with Some sound show ?thesis by (simp add: nearestIdx_def)
next
  case None
  let ?l' = "l\<lparr> lut_tab := lut_set (lut_tab l) (lut_key l r g b) (int (exactIdx prep dm (r, g, b))) \<rparr>"
  have "nearestIdx r g b prep dm (Some l) = Inr (exactIdx prep dm (r, g, b), Some ?l')"
    using None by (simp add: nearestIdx_def prep fullScan_built)
  moreover have "lutSound prep dm C ?l'"
    unfolding lutSound_def
  proof (intro ballI allI impI)
    fix c' v assume c': "c' \<in> C" and h: "lut_get (lut_tab ?l') (keyOf ?l' c') = Some v \<and> 0 \<le> v"
    have k: "keyOf ?l' c' = keyOf l c'" by (simp add: keyOf_def)
    show "nat v = exactIdx prep dm c'"
    proof (cases "keyOf l c' = lut_key l r g b \<and> 0 \<le> lut_key l r g b \<and> lut_key l r g b < int (length (lut_tab l))")
      case True
      with h k have "v = int (exactIdx prep dm (r, g, b))" by (simp add: lut_get_set)
      moreover from True have "keyOf l c' = keyOf l (r, g, b)" by (simp add: keyOf_def)
      with cons c c' have "exactIdx prep dm c' = exactIdx prep dm (r, g, b)"
        unfolding consistentOn_def by blast
      ultimately show ?thesis by simp
    next
      case False
      with h k have "lut_get (lut_tab l) (keyOf l c') = Some v \<and> 0 \<le> v"
        by (auto simp add: lut_get_set split: if_splits)
      with sound c' show ?thesis unfolding lutSound_def by blast
    qed
  qed
  ultimately show ?thesis by auto
qed

lemma keyOf_params: "lut_bits l' = lut_bits l \<Longrightarrow> lut_shift l' = lut_shift l \<Longrightarrow> keyOf l' = keyOf l"
  by (intro ext) (simp add: keyOf_def lut_key_def split: prod.splits)

lemma consistentOn_params:
  "lut_bits l' = lut_bits l \<Longrightarrow> lut_shift l' = lut_shift l \<Longrightarrow> consistentOn prep dm l' C = consistentOn prep dm l C"
  using keyOf_params [of l' l] by (simp add: consistentOn_def)

lemma replicate_4_Suc: "replicate (Suc m * 4) x = x # x # x # x # replicate (m * 4) x"
proof -
  have "Suc m * 4 = Suc (Suc (Suc (Suc (m * 4))))" by simp
  then show ?thesis by (simp only: replicate.simps)
qed

lemma update4_append:
  "(Q @ z0 # z1 # z2 # z3 # zs)[length Q := a, length Q + 1 := b, length Q + 2 := c, length Q + 3 := d]
     = Q @ a # b # c # d # zs"
proof -
  have 1: "(Q @ z0 # z1 # z2 # z3 # zs)[length Q := a] = Q @ a # z1 # z2 # z3 # zs"
    by (rule list_update_length)
  have 2: "(Q @ a # z1 # z2 # z3 # zs)[length Q + 1 := b] = Q @ a # b # z2 # z3 # zs"
    using list_update_length [of "Q @ [a]" z1 "z2 # z3 # zs" b] by simp
  have 3: "(Q @ a # b # z2 # z3 # zs)[length Q + 2 := c] = Q @ a # b # c # z3 # zs"
    using list_update_length [of "Q @ [a, b]" z2 "z3 # zs" c] by simp
  have 4: "(Q @ a # b # c # z3 # zs)[length Q + 3 := d] = Q @ a # b # c # d # zs"
    using list_update_length [of "Q @ [a, b, c]" z3 zs d] by (simp add: numeral_3_eq_3)
  show ?thesis by (simp only: 1 2 3 4)
qed

lemma writePixel_append:
  assumes "length Q = off"
  shows "writePixel prep idx off (Q @ replicate (Suc m * 4) 0) = Q @ paletteQuad prep idx @ replicate (m * 4) 0"
proof -
  have "replicate (Suc m * 4) (0::byte) = 0 # 0 # 0 # 0 # replicate (m * 4) 0"
    by (rule replicate_4_Suc)
  then show ?thesis
    unfolding writePixel_def paletteQuad_def assms [symmetric]
    by (simp only: update4_append append_Cons append_Nil)
qed

lemma length_concat_quads: "length (concat (map (\<lambda>p. paletteQuad prep (f p)) [0..<k])) = k * 4"
  by (induction k) (simp_all add: paletteQuad_def)

lemma none_loop:
  assumes prep: "prep = buildPalettePrepared pal dm"
    and cons: "consistentOn prep dm l C"
    and sound: "lutSound prep dm C l"
    and cols: "\<forall>p<N. srcColour srcArr p \<in> C"
  shows "k \<le> N \<Longrightarrow>
    \<exists>l'. foldE (nonePixelAt srcArr prep dm) [0..<k] (Some l, replicate (N * 4) 0)
           = Inr (Some l', concat (map (\<lambda>p. paletteQuad prep (exactIdx prep dm (srcColour srcArr p))) [0..<k])
                           @ replicate ((N - k) * 4) 0)
         \<and> lutSound prep dm C l' \<and> lut_bits l' = lut_bits l \<and> lut_shift l' = lut_shift l"
proof (induction k)
  case 0
  with sound show ?case by simp
next
  case (Suc k)
  let ?Q = "\<lambda>k. concat (map (\<lambda>p. paletteQuad prep (exactIdx prep dm (srcColour srcArr p))) [0..<k])"
  from Suc obtain l1 where
    run: "foldE (nonePixelAt srcArr prep dm) [0..<k] (Some l, replicate (N * 4) 0) = Inr (Some l1, ?Q k @ replicate ((N - k) * 4) 0)"
    and s1: "lutSound prep dm C l1" and p1: "lut_bits l1 = lut_bits l" "lut_shift l1 = lut_shift l"
    by auto
  obtain r g b where col: "srcColour srcArr k = (r, g, b)" by (cases "srcColour srcArr k")
  have inC: "(r, g, b) \<in> C" using cols Suc.prems col by (metis Suc_le_lessD)
  have cons1: "consistentOn prep dm l1 C" using cons consistentOn_params [of l1 l prep dm C] p1 by blast
  from nearestIdx_sound [OF prep cons1 s1 inC] obtain l2 where
    near: "nearestIdx r g b prep dm (Some l1) = Inr (exactIdx prep dm (r, g, b), Some l2)"
    and s2: "lutSound prep dm C l2" and p2: "lut_bits l2 = lut_bits l1" "lut_shift l2 = lut_shift l1"
    by blast
  have rest: "(N - k) = Suc (N - Suc k)" using Suc.prems by simp
  have wr: "writePixel prep (exactIdx prep dm (r, g, b)) (k * 4) (?Q k @ replicate ((N - k) * 4) 0)
        = ?Q k @ paletteQuad prep (exactIdx prep dm (r, g, b)) @ replicate ((N - Suc k) * 4) 0"
    by (simp only: rest) (rule writePixel_append, simp add: length_concat_quads)
  have "foldE (nonePixelAt srcArr prep dm) [0..<Suc k] (Some l, replicate (N * 4) 0)
        = nonePixelAt srcArr prep dm k (Some l1, ?Q k @ replicate ((N - k) * 4) 0)"
    by (simp add: foldE_snoc run)
  also have "\<dots> = Inr (Some l2, ?Q (Suc k) @ replicate ((N - Suc k) * 4) 0)"
    by (simp add: nonePixelAt_def col near wr)
  finally have "foldE (nonePixelAt srcArr prep dm) [0..<Suc k] (Some l, replicate (N * 4) 0)
        = Inr (Some l2, ?Q (Suc k) @ replicate ((N - Suc k) * 4) 0)" .
  moreover have "lut_bits l2 = lut_bits l" "lut_shift l2 = lut_shift l" using p1 p2 by simp_all
  ultimately show ?case using s2 by blast
qed

lemma makeLUT_fresh:
  assumes "makeLUT bits0 = Inr l"
  shows "lutSound prep dm C l" "lut_bits l = bits0" "lut_shift l = 8 - bits0"
proof -
  from assms have l: "l = \<lparr> lut_tab = replicate (nat (shl32 1 (bits0 * 3))) (- 1), lut_bits = bits0, lut_shift = 8 - bits0 \<rparr>"
    by (simp add: makeLUT_def Let_def split: if_splits)
  show "lutSound prep dm C l"
    by (auto simp add: lutSound_def l lut_get_def split: if_splits)
  show "lut_bits l = bits0" "lut_shift l = 8 - bits0" by (simp_all add: l)
qed

lemma doNoneOrOrdered_exact:
  assumes md: "mode job = NoneMode"
    and lut: "makeLUT (jobBits job) = Inr l"
    and rng: "(case yStart job of None \<Rightarrow> 0 | Some v \<Rightarrow> v) \<le> (case yEnd job of None \<Rightarrow> height job | Some v \<Rightarrow> v)"
    and cons: "consistentOn (buildPalettePrepared (palette job) (distance job)) (distance job) l
                 (srcColour (src job) ` {..<((case yEnd job of None \<Rightarrow> height job | Some v \<Rightarrow> v) - (case yStart job of None \<Rightarrow> 0 | Some v \<Rightarrow> v)) * width job})"
  shows "doNoneOrOrdered job =
     Inr (concat (map (\<lambda>p. paletteQuad (buildPalettePrepared (palette job) (distance job))
                           (exactIdx (buildPalettePrepared (palette job) (distance job)) (distance job) (srcColour (src job) p)))
                  [0..<((case yEnd job of None \<Rightarrow> height job | Some v \<Rightarrow> v) - (case yStart job of None \<Rightarrow> 0 | Some v \<Rightarrow> v)) * width job]))"
proof -
  define y0 where "y0 = (case yStart job of None \<Rightarrow> 0 | Some v \<Rightarrow> v)"
  define y1 where "y1 = (case yEnd job of None \<Rightarrow> height job | Some v \<Rightarrow> v)"
  define prep where "prep = buildPalettePrepared (palette job) (distance job)"
  define N where "N = (y1 - y0) * width job"
  define st where "st = clamp255 (Some (255 * (case orderedStrength job of None \<Rightarrow> 0.5 | Some v \<Rightarrow> v)))"
  have y: "y0 \<le> y1" using rng by (simp add: y0_def y1_def)
  have flat: "noneOrOrderedLoops (width job) (src job) prep (distance job) NoneMode st y0 y1 s
      = foldE (nonePixelAt (src job) prep (distance job)) [0..<N] s" for s
  proof -
    have "foldE (\<lambda>y. foldE (noneOrOrderedPixel (width job) (src job) prep (distance job) NoneMode st y0 y) [0..<width job])
             [y0..<y0 + (y1 - y0)] s = foldE (nonePixelAt (src job) prep (distance job)) [0..<(y1 - y0) * width job] s"
      by (rule foldE_rows_flat) (simp add: noneOrOrderedPixel_none)
    then show ?thesis using y by (simp add: noneOrOrderedLoops_def N_def)
  qed
  have "\<exists>l'. foldE (nonePixelAt (src job) prep (distance job)) [0..<N] (Some l, replicate (N * 4) 0)
           = Inr (Some l', concat (map (\<lambda>p. paletteQuad prep (exactIdx prep (distance job) (srcColour (src job) p))) [0..<N])
                           @ replicate ((N - N) * 4) 0)
         \<and> lutSound prep (distance job) (srcColour (src job) ` {..<N}) l' \<and> lut_bits l' = lut_bits l \<and> lut_shift l' = lut_shift l"
    by (rule none_loop [where pal = "palette job"])
       (use cons makeLUT_fresh(1) [OF lut] in \<open>simp_all add: prep_def N_def y0_def y1_def\<close>)
  then obtain l' where run: "foldE (nonePixelAt (src job) prep (distance job)) [0..<N] (Some l, replicate (N * 4) 0)
           = Inr (Some l', concat (map (\<lambda>p. paletteQuad prep (exactIdx prep (distance job) (srcColour (src job) p))) [0..<N]))"
    by auto
  have "\<not> (y1 < y0 \<and> 0 < width job)" using y by simp
  then have "doNoneOrOrdered job = Inr (concat (map (\<lambda>p. paletteQuad prep (exactIdx prep (distance job) (srcColour (src job) p))) [0..<N]))"
    using lut run
    by (simp add: doNoneOrOrdered_def Let_def md flat jobBits_def
        y0_def [symmetric] y1_def [symmetric] prep_def [symmetric] st_def [symmetric] N_def [symmetric])
  then show ?thesis by (simp add: prep_def N_def y0_def y1_def)
qed

section \<open>Strip-parallel quantization\<close>

lemma u8_get_slice:
  "i < b - a \<Longrightarrow> u8_get (slice xs a b) i = u8_get xs (a + i)"
  by (auto simp add: u8_get_def slice_def)

lemma srcColour_slice:
  assumes "p < (ye - ys) * w"
  shows "srcColour (slice xs (ys * w * 4) (ye * w * 4)) p = srcColour xs (ys * w + p)"
proof -
  have "p * 4 + 3 < (ye - ys) * w * 4" using assms by simp
  also have "\<dots> = ye * w * 4 - ys * w * 4" by (simp add: diff_mult_distrib)
  finally have b: "p * 4 + 3 < ye * w * 4 - ys * w * 4" .
  then have "p * 4 < ye * w * 4 - ys * w * 4" "p * 4 + 1 < ye * w * 4 - ys * w * 4" "p * 4 + 2 < ye * w * 4 - ys * w * 4"
    by simp_all
  then show ?thesis
    by (simp add: srcColour_def u8_get_slice add_mult_distrib add.assoc)
qed

lemma chain_le: "chain a strips b \<Longrightarrow> a \<le> b"
  by (induction a strips b rule: chain.induct) auto

lemma chain_bounds: "chain a strips b \<Longrightarrow> (ys, ye) \<in> set strips \<Longrightarrow> a \<le> ys \<and> ys \<le> ye \<and> ye \<le> b"
proof (induction a strips b rule: chain.induct)
  case (1 a b)
  then show ?case by simp
next
  case (2 a ys' ye' rest b)
  then show ?case using chain_le [of ye' rest b] by auto
qed

lemma concat_upt_split:
  "i \<le> j \<Longrightarrow> j \<le> k \<Longrightarrow> concat (map G [i..<j]) @ concat (map G [j..<k]) = concat (map G [i..<k])"
  by (metis concat_append le_Suc_ex map_append upt_add_eq_append)

lemma chain_concat:
  assumes "chain a strips h"
    and "\<And>ys ye. (ys, ye) \<in> set strips \<Longrightarrow> R (ys, ye) = Inr (concat (map G [ys * w..<ye * w]))"
  shows "concatResults (map R strips) = Inr (concat (map G [a * w..<h * w]))"
  using assms
proof (induction a strips h rule: chain.induct)
  case (1 a b)
  then show ?case by simp
next
  case (2 a ys ye rest b)
  have ys: "ys = a" "ys \<le> ye" and ch: "chain ye rest b" using 2(2) by simp_all
  have "concatResults (map R rest) = Inr (concat (map G [ye * w..<b * w]))"
    using 2(1) [OF ch] 2(3) by simp
  moreover have "R (ys, ye) = Inr (concat (map G [ys * w..<ye * w]))" using 2(3) by simp
  moreover have "ye \<le> b" using chain_le [OF ch] .
  ultimately show ?case using ys by (simp add: concat_upt_split)
qed

lemma bucketConsistent_iff:
  "bucketConsistent job \<longleftrightarrow>
     consistentOn (buildPalettePrepared (palette job) (distance job)) (distance job)
       \<lparr> lut_tab = [], lut_bits = jobBits job, lut_shift = 8 - jobBits job \<rparr>
       (srcColour (src job) ` {..<width job * height job})"
  by (simp add: bucketConsistent_def consistentOn_def Let_def list_all_iff lessThan_atLeast0)

lemma consistentOn_mono: "consistentOn prep dm l C \<Longrightarrow> D \<subseteq> C \<Longrightarrow> consistentOn prep dm l D"
  unfolding consistentOn_def by blast

lemma doNoneOrOrdered_lut_error:
  assumes "makeLUT (jobBits job) = Inl e"
  shows "doNoneOrOrdered job = Inl RangeError"
proof -
  have "e = RangeError" using assms by (simp add: makeLUT_def Let_def split: if_splits)
  with assms show ?thesis by (simp add: doNoneOrOrdered_def Let_def jobBits_def)
qed


text \<open>The definitions unfolded to run the worker on a concrete job.\<close>

lemmas worker_eval =
  doNoneOrOrdered_def noneOrOrderedLoops_def makeLUT_def shl32_def wrap32_def sar32_def toInt32_def
  buildPalettePrepared_def noneOrOrderedPixel_def orderedPerturb_def nearestIdx_def cachedIdx_def
  fullScan_def lut_key_def lut_get_def lut_set_def u8_get_def byte_val_def distRGB_def
  num_add_def num_sub_def num_mul_def writePixel_def to_u8c_def round_half_even_def clamp255_def
  slice_def Let_def



section \<open>Ordered dithering with strength 0, on every path\<close>

lemma newImageData_Inr:
  assumes "newImageData d sw sh = Inr out"
  shows "img_data out = d" "img_width out = sw" "img_height out = sh" "length d = 4 * sw * sh"
proof -
  from assms have ok: "sw \<noteq> 0" "sh \<noteq> 0" "length d mod 4 = 0" "(length d div 4) mod sw = 0" "(length d div 4) div sw = sh"
    and out: "out = \<lparr> img_width = sw, img_height = sh, img_data = d \<rparr>"
    by (auto simp add: newImageData_def split: if_splits)
  show "img_data out = d" "img_width out = sw" "img_height out = sh" by (simp_all add: out)
  have "length d div 4 = sw * sh" using ok by (metis mod_0_imp_dvd dvd_mult_div_cancel)
  then show "length d = 4 * sw * sh" using ok by (metis mod_0_imp_dvd dvd_mult_div_cancel mult.assoc)
qed

lemma advOrderedPixel_zero:
  "advOrderedPixel pal dm md 0 da w y x d = advNonePixel pal dm ((y * w + x) * 4) d"
  by (simp add: advOrderedPixel_def advNonePixel_def Let_def clamp255_add_zero_u8)

lemma advanced_ordered_zero_loop:
  "foldE (\<lambda>y. foldE (advOrderedPixel pal dm md 0 da w y) [0..<w]) [0..<h] d
     = foldE (advNonePixel pal dm) (map (\<lambda>k. 4 * k) [0..<h * w]) d"
proof -
  have "foldE (\<lambda>y. foldE (advOrderedPixel pal dm md 0 da w y) [0..<w]) [0..<0 + h] d
      = foldE (\<lambda>p. advNonePixel pal dm (p * 4)) [0..<h * w] d"
    by (rule foldE_rows_flat) (simp add: advOrderedPixel_zero)
  also have "\<dots> = foldE (advNonePixel pal dm) (map (\<lambda>k. 4 * k) [0..<h * w]) d"
    by (simp add: foldE_map mult.commute)
  finally show ?thesis by simp
qed

lemma quantizeToPaletteAdvanced_zero_strength:
  assumes "md = Ordered4 \<or> md = Ordered8"
  shows "quantizeToPaletteAdvanced img pal (opts\<lparr> opt_dithering := Some md, opt_orderedStrength := Some 0 \<rparr>)
       = quantizeToPaletteAdvanced img pal (opts\<lparr> opt_dithering := Some NoneMode \<rparr>)"
proof (cases "newImageData (img_data img) (img_width img) (img_height img)")
  case (Inl e)
  then show ?thesis using assms by (auto simp add: quantizeToPaletteAdvanced_def Let_def)
next
  case (Inr out)
  note o = newImageData_Inr [OF Inr]
  have n: "(length (img_data out) + 3) div 4 = img_height out * img_width out"
    using o by (simp add: mult.commute)
  show ?thesis using assms Inr
    by (auto simp add: quantizeToPaletteAdvanced_def Let_def advanced_ordered_zero_loop n)
qed

lemma onmessage_zero_strength:
  assumes "md = Ordered4 \<or> md = Ordered8"
  shows "onmessage (job\<lparr> mode := md, orderedStrength := Some 0 \<rparr>) = onmessage (job\<lparr> mode := NoneMode \<rparr>)"
  using assms by (auto simp add: onmessage_def doNoneOrOrdered_zero_strength cong: sum.case_cong option.case_cong)

lemma submit_stripJob_zero_strength:
  assumes "md = Ordered4 \<or> md = Ordered8"
  shows "submit (stripJob w h srcArr flat md dm 0 serp da cb ys ye)
       = submit (stripJob w h srcArr flat NoneMode dm os serp da cb ys ye)"
proof -
  have "stripJob w h srcArr flat md dm 0 serp da cb ys ye
      = (stripJob w h srcArr flat NoneMode dm os serp da cb ys ye)\<lparr> mode := md, orderedStrength := Some 0 \<rparr>"
    by (simp add: stripJob_def)
  moreover have "stripJob w h srcArr flat NoneMode dm os serp da cb ys ye
      = (stripJob w h srcArr flat NoneMode dm os serp da cb ys ye)\<lparr> mode := NoneMode \<rparr>"
    by (simp add: stripJob_def)
  ultimately show ?thesis
    unfolding submit_def using onmessage_zero_strength [OF assms] by metis
qed

lemma fast_zero_strength:
  assumes "md = Ordered4 \<or> md = Ordered8"
  shows "quantizeToPaletteAdvancedFast k img pal (opts\<lparr> opt_dithering := Some md, opt_orderedStrength := Some 0 \<rparr>)
       = quantizeToPaletteAdvancedFast k img pal (opts\<lparr> opt_dithering := Some NoneMode \<rparr>)"
  using assms
  by (auto simp add: quantizeToPaletteAdvancedFast_def Let_def
      submit_stripJob_zero_strength [where os = "case opt_orderedStrength opts of None \<Rightarrow> 0.5 | Some v \<Rightarrow> v"]
      cong: sum.case_cong option.case_cong)

text \<open>
  Claim C9. With \<open>orderedStrength = 0\<close> the modes \<^verbatim>\<open>'ordered4'\<close> and \<^verbatim>\<open>'ordered8'\<close> give
  exactly what mode \<^verbatim>\<open>'none'\<close> gives on the same input: in the worker
  (\<open>doNoneOrOrdered\<close>, for every job), on the whole worker path
  (\<open>quantizeToPaletteAdvancedFast\<close>, for every pool size, image, palette and options) and
  in the non-worker quantizer (\<open>quantizeToPaletteAdvanced\<close>).
\<close>

theorem ordered_zero_strength_is_none:
  "doNoneOrOrdered (job\<lparr> mode := Ordered4, orderedStrength := Some 0 \<rparr>) = doNoneOrOrdered (job\<lparr> mode := NoneMode \<rparr>)
   \<and> doNoneOrOrdered (job\<lparr> mode := Ordered8, orderedStrength := Some 0 \<rparr>) = doNoneOrOrdered (job\<lparr> mode := NoneMode \<rparr>)
   \<and> quantizeToPaletteAdvancedFast k img pal (opts\<lparr> opt_dithering := Some Ordered4, opt_orderedStrength := Some 0 \<rparr>)
       = quantizeToPaletteAdvancedFast k img pal (opts\<lparr> opt_dithering := Some NoneMode \<rparr>)
   \<and> quantizeToPaletteAdvancedFast k img pal (opts\<lparr> opt_dithering := Some Ordered8, opt_orderedStrength := Some 0 \<rparr>)
       = quantizeToPaletteAdvancedFast k img pal (opts\<lparr> opt_dithering := Some NoneMode \<rparr>)
   \<and> quantizeToPaletteAdvanced img pal (opts\<lparr> opt_dithering := Some Ordered4, opt_orderedStrength := Some 0 \<rparr>)
       = quantizeToPaletteAdvanced img pal (opts\<lparr> opt_dithering := Some NoneMode \<rparr>)
   \<and> quantizeToPaletteAdvanced img pal (opts\<lparr> opt_dithering := Some Ordered8, opt_orderedStrength := Some 0 \<rparr>)
       = quantizeToPaletteAdvanced img pal (opts\<lparr> opt_dithering := Some NoneMode \<rparr>)"
  by (simp add: doNoneOrOrdered_zero_strength fast_zero_strength quantizeToPaletteAdvanced_zero_strength)

section \<open>The full scan returns the first minimum\<close>

lemma scan_snoc:
  "scan d (js @ [i]) acc =
     (case d i of
        None \<Rightarrow> scan d js acc
      | Some x \<Rightarrow> if num_less_bound (Some x) (snd (scan d js acc)) then (i, Fin x) else scan d js acc)"
proof (induction js arbitrary: acc)
  case Nil
  then show ?case by (cases acc) (simp split: option.splits)
next
  case (Cons j js)
  then show ?case by (cases acc) (simp split: option.splits)
qed

lemma scan_first_min:
  assumes d: "\<And>i. i < n \<Longrightarrow> d i = Some (f i)" and n: "0 < n"
  shows "\<exists>j. scan d [0..<n] (0, PosInf) = (j, Fin (f j)) \<and> j < n \<and> (\<forall>i<n. f j \<le> f i) \<and> (\<forall>i<j. f j < f i)"
  using assms
proof (induction n)
  case 0
  then show ?case by simp
next
  case (Suc n)
  show ?case
  proof (cases "n = 0")
    case True
    then show ?thesis using Suc.prems by simp
  next
    case False
    then obtain j where j: "scan d [0..<n] (0, PosInf) = (j, Fin (f j))" "j < n" "\<forall>i<n. f j \<le> f i" "\<forall>i<j. f j < f i"
      using Suc by force
    have dn: "d n = Some (f n)" using Suc.prems by simp
    show ?thesis
    proof (cases "f n < f j")
      case True
      then have "scan d [0..<Suc n] (0, PosInf) = (n, Fin (f n))"
        by (simp add: scan_snoc dn j)
      moreover have "\<forall>i<Suc n. f n \<le> f i" using True j(3) by (fastforce simp add: less_Suc_eq)
      moreover have "\<forall>i<n. f n < f i" using True j(3) by (meson less_le_trans)
      ultimately show ?thesis by auto
    next
      case False
      then have "scan d [0..<Suc n] (0, PosInf) = (j, Fin (f j))"
        by (simp add: scan_snoc dn j)
      moreover have "\<forall>i<Suc n. f j \<le> f i" using False j(3) by (auto simp add: less_Suc_eq)
      ultimately show ?thesis using j by auto
    qed
  qed
qed

lemma built_nth:
  assumes "i < length pFlat div 3"
  shows "pr (buildPalettePrepared pFlat dm) ! i = pFlat ! (i * 3)"
    "pg (buildPalettePrepared pFlat dm) ! i = pFlat ! (i * 3 + 1)"
    "pb (buildPalettePrepared pFlat dm) ! i = pFlat ! (i * 3 + 2)"
  using assms by (simp_all add: buildPalettePrepared_def Let_def)

lemma distRGB_built:
  assumes "i < length pFlat div 3"
  shows "distRGB (Some r) (Some g) (Some b) (buildPalettePrepared pFlat dm) i = Some (metricDist pFlat RGB (r, g, b) i)"
  using assms
  by (simp add: distRGB_def Let_def u8_get_def built_nth num_sub_def num_mul_def num_add_def
      metricDist_def colourDist_def sqDist3_def paletteEntry_def)

lemma distOKLab_built:
  assumes "i < length pFlat div 3"
    and "pL (buildPalettePrepared pFlat OKLab) = Some pLl"
    and "pA (buildPalettePrepared pFlat OKLab) = Some pAl"
    and "pB (buildPalettePrepared pFlat OKLab) = Some pBl"
  shows "distOKLab (rgbToOklab_num (Some r) (Some g) (Some b)) pLl pAl pBl i = Some (metricDist pFlat OKLab (r, g, b) i)"
proof -
  have l: "pLl = map (\<lambda>i. fst (paletteEntryLab i)) [0..<length pFlat div 3]"
      "pAl = map (\<lambda>i. fst (snd (paletteEntryLab i))) [0..<length pFlat div 3]"
      "pBl = map (\<lambda>i. snd (snd (paletteEntryLab i))) [0..<length pFlat div 3]"
    if "paletteEntryLab = (\<lambda>i. case paletteEntry pFlat i of (r', g', b') \<Rightarrow> rgbToOklab r' g' b')" for paletteEntryLab
    using assms(2-4) that
    by (auto simp add: buildPalettePrepared_def Let_def oklabOfEntry_def paletteEntry_def)
  obtain L a b2 where q: "rgbToOklab r g b = (L, a, b2)" by (cases "rgbToOklab r g b")
  obtain r' g' b' where e: "paletteEntry pFlat i = (r', g', b')" by (cases "paletteEntry pFlat i")
  obtain L' a' b2' where q': "rgbToOklab r' g' b' = (L', a', b2')" by (cases "rgbToOklab r' g' b'")
  show ?thesis
    using assms(1) l [OF refl]
    by (simp add: distOKLab_def rgbToOklab_num_def q e q' f32_get_def Let_def
        num_sub_def num_mul_def num_add_def metricDist_def colourDist_def sqDist3_def)
qed

lemma nearestIdx_scan_first_minimum:
  assumes "3 \<le> length pFlat"
  shows "\<exists>j. nearestIdx (Some r) (Some g) (Some b) (buildPalettePrepared pFlat dm) dm None = Inr (j, None)
           \<and> j < length pFlat div 3
           \<and> (\<forall>i < length pFlat div 3. metricDist pFlat dm (r, g, b) j \<le> metricDist pFlat dm (r, g, b) i)
           \<and> (\<forall>i < j. metricDist pFlat dm (r, g, b) j < metricDist pFlat dm (r, g, b) i)"
proof -
  let ?n = "length pFlat div 3"
  let ?prep = "buildPalettePrepared pFlat dm"
  have n: "0 < ?n" using assms by simp
  show ?thesis
  proof (cases dm)
    case RGB
    from scan_first_min [of ?n "distRGB (Some r) (Some g) (Some b) ?prep" "metricDist pFlat RGB (r, g, b)", OF distRGB_built n]
    obtain j where "scan (distRGB (Some r) (Some g) (Some b) ?prep) [0..<?n] (0, PosInf) = (j, Fin (metricDist pFlat RGB (r, g, b) j))"
      "j < ?n" "\<forall>i<?n. metricDist pFlat RGB (r, g, b) j \<le> metricDist pFlat RGB (r, g, b) i"
      "\<forall>i<j. metricDist pFlat RGB (r, g, b) j < metricDist pFlat RGB (r, g, b) i"
      by blast
    then show ?thesis using RGB
      by (intro exI [of _ j]) (simp add: nearestIdx_def cachedIdx_def fullScan_def)
  next
    case OKLab
    obtain pLl pAl pBl where arr: "pL (buildPalettePrepared pFlat OKLab) = Some pLl"
        "pA (buildPalettePrepared pFlat OKLab) = Some pAl" "pB (buildPalettePrepared pFlat OKLab) = Some pBl"
      using built_oklab by blast
    from scan_first_min [of ?n "distOKLab (rgbToOklab_num (Some r) (Some g) (Some b)) pLl pAl pBl" "metricDist pFlat OKLab (r, g, b)",
        OF distOKLab_built [OF _ arr] n]
    obtain j where "scan (distOKLab (rgbToOklab_num (Some r) (Some g) (Some b)) pLl pAl pBl) [0..<?n] (0, PosInf) = (j, Fin (metricDist pFlat OKLab (r, g, b) j))"
      "j < ?n" "\<forall>i<?n. metricDist pFlat OKLab (r, g, b) j \<le> metricDist pFlat OKLab (r, g, b) i"
      "\<forall>i<j. metricDist pFlat OKLab (r, g, b) j < metricDist pFlat OKLab (r, g, b) i"
      by blast
    then show ?thesis using OKLab arr n
      by (intro exI [of _ j]) (simp add: nearestIdx_def cachedIdx_def fullScan_def)
  qed
qed

lemma colorDistance_Some:
  "colorDistance (Some r) (Some g) (Some b) cr cg cb dm = Some (colourDist dm (r, g, b) (cr, cg, cb))"
proof -
  obtain L a b2 where q: "rgbToOklab r g b = (L, a, b2)" by (cases "rgbToOklab r g b")
  obtain L' a' b2' where q': "rgbToOklab cr cg cb = (L', a', b2')" by (cases "rgbToOklab cr cg cb")
  show ?thesis
    by (cases dm)
      (simp_all add: colorDistance_def colourDist_def sqDist3_def rgbToOklab_num_def q q' Let_def
        num_sub_def num_mul_def num_add_def)
qed

lemma nearestPaletteColor_first_minimum:
  assumes "pal \<noteq> []"
  shows "\<exists>j. nearestPaletteColor (Some r) (Some g) (Some b) pal dm = Some (pal ! j)
           \<and> j < length pal
           \<and> (\<forall>i < length pal. colourDist dm (r, g, b) (pal ! j) \<le> colourDist dm (r, g, b) (pal ! i))
           \<and> (\<forall>i < j. colourDist dm (r, g, b) (pal ! j) < colourDist dm (r, g, b) (pal ! i))"
proof -
  let ?d = "\<lambda>i. case pal ! i of (cr, cg, cb) \<Rightarrow> colorDistance (Some r) (Some g) (Some b) cr cg cb dm"
  have d: "?d i = Some (colourDist dm (r, g, b) (pal ! i))" for i
    by (cases "pal ! i") (simp add: colorDistance_Some)
  have n: "0 < length pal" using assms by simp
  from scan_first_min [of "length pal" ?d "\<lambda>i. colourDist dm (r, g, b) (pal ! i)", OF d n]
  obtain j where "scan ?d [0..<length pal] (0, PosInf) = (j, Fin (colourDist dm (r, g, b) (pal ! j)))"
    "j < length pal" "\<forall>i<length pal. colourDist dm (r, g, b) (pal ! j) \<le> colourDist dm (r, g, b) (pal ! i)"
    "\<forall>i<j. colourDist dm (r, g, b) (pal ! j) < colourDist dm (r, g, b) (pal ! i)"
    by blast
  then show ?thesis
    by (intro exI [of _ j]) (simp add: nearestPaletteColor_def nearestPaletteIndex_def)
qed



section \<open>The cache: fresh caches and shared buckets\<close>

lemma wrap32_id: "0 \<le> i \<Longrightarrow> i < 2 ^ 31 \<Longrightarrow> wrap32 i = i"
  by (simp add: wrap32_def)

lemma int_div_less:
  fixes a b c :: int
  assumes c: "0 < c" and lt: "a < c * b"
  shows "a div c < b"
proof (rule ccontr)
  assume "\<not> a div c < b"
  then have "b \<le> a div c" by simp
  then have 1: "c * b \<le> c * (a div c)" using c by (simp add: mult_left_mono)
  have "a = c * (a div c) + a mod c" by simp
  moreover have "0 \<le> a mod c" using c by simp
  ultimately have "c * (a div c) \<le> a" by linarith
  with 1 lt show False by linarith
qed

lemma channel_bucket:
  assumes r: "0 \<le> r" "r \<le> 255" and b: "0 \<le> bits0" "bits0 \<le> 8"
  shows "0 \<le> sar32 (toInt32 (Some r)) (8 - bits0) \<and> sar32 (toInt32 (Some r)) (8 - bits0) < 2 ^ nat bits0"
proof -
  have f: "0 \<le> \<lfloor>r\<rfloor>" "\<lfloor>r\<rfloor> < 256" using r by (simp_all add: floor_less_iff)
  then have t: "toInt32 (Some r) = \<lfloor>r\<rfloor>" using r by (simp add: toInt32_def wrap32_id)
  have m: "(8 - bits0) mod 32 = 8 - bits0" using b by simp
  have "(256 :: int) = 2 ^ nat (8 - bits0) * 2 ^ nat bits0"
    using b by (simp add: power_add [symmetric] nat_add_distrib [symmetric])
  then have "\<lfloor>r\<rfloor> < 2 ^ nat (8 - bits0) * 2 ^ nat bits0" using f by simp
  then have "\<lfloor>r\<rfloor> div 2 ^ nat (8 - bits0) < 2 ^ nat bits0"
    by (intro int_div_less) simp_all
  moreover have "0 \<le> \<lfloor>r\<rfloor> div 2 ^ nat (8 - bits0)" using f by (simp add: pos_imp_zdiv_nonneg_iff)
  ultimately show ?thesis by (simp add: sar32_def t m)
qed

lemma shl32_small:
  assumes "0 \<le> a" "a < 2 ^ nat bits0" "0 \<le> k" "k \<le> 16" "0 \<le> bits0" "bits0 \<le> 8"
  shows "0 \<le> shl32 a k \<and> shl32 a k < 2 ^ (nat bits0 + nat k)"
proof -
  have m: "k mod 32 = k" using assms by simp
  have lt: "a * 2 ^ nat k < 2 ^ nat bits0 * 2 ^ nat k"
    using assms by (simp add: mult_strict_right_mono)
  have lt2: "a * 2 ^ nat k < 2 ^ (nat bits0 + nat k)" using lt by (simp add: power_add)
  have "nat bits0 + nat k \<le> 24" using assms by simp
  then have "(2 :: int) ^ (nat bits0 + nat k) \<le> 2 ^ 24" by (rule power_increasing) simp
  also have "(2 :: int) ^ 24 < 2 ^ 31" by simp
  finally have "a * 2 ^ nat k < 2 ^ 31" using lt2 by (rule order_less_trans [rotated])
  moreover have "0 \<le> a * 2 ^ nat k" using assms by simp
  ultimately show ?thesis using lt2 by (simp add: shl32_def m wrap32_id)
qed

lemma lut_key_range:
  assumes c: "0 \<le> r" "r \<le> 255" "0 \<le> g" "g \<le> 255" "0 \<le> b" "b \<le> 255"
    and bits: "0 \<le> lut_bits l" "lut_bits l \<le> 8" and sh: "lut_shift l = 8 - lut_bits l"
  shows "0 \<le> lut_key l (Some r) (Some g) (Some b) \<and> lut_key l (Some r) (Some g) (Some b) < 2 ^ (3 * nat (lut_bits l))"
proof -
  let ?n = "nat (lut_bits l)"
  let ?R = "sar32 (toInt32 (Some r)) (lut_shift l)"
  let ?G = "sar32 (toInt32 (Some g)) (lut_shift l)"
  let ?B = "sar32 (toInt32 (Some b)) (lut_shift l)"
  have R: "0 \<le> ?R" "?R < 2 ^ ?n" and G: "0 \<le> ?G" "?G < 2 ^ ?n" and B: "0 \<le> ?B" "?B < 2 ^ ?n"
    using channel_bucket [OF c(1,2) bits] channel_bucket [OF c(3,4) bits] channel_bucket [OF c(5,6) bits]
    by (simp_all add: sh)
  have n2: "nat (lut_bits l * 2) = 2 * ?n" using bits by simp
  have A: "0 \<le> shl32 ?R (lut_bits l * 2)" "shl32 ?R (lut_bits l * 2) < 2 ^ (3 * ?n)"
    using shl32_small [OF R, of "lut_bits l * 2"] bits by (simp_all add: n2)
  have A2: "0 \<le> shl32 ?G (lut_bits l)" "shl32 ?G (lut_bits l) < 2 ^ (3 * ?n)"
  proof -
    have s: "0 \<le> shl32 ?G (lut_bits l)" "shl32 ?G (lut_bits l) < 2 ^ (?n + ?n)"
      using shl32_small [OF G, of "lut_bits l"] bits by simp_all
    show "0 \<le> shl32 ?G (lut_bits l)" by (rule s)
    have "(2 :: int) ^ (?n + ?n) \<le> 2 ^ (3 * ?n)" by (rule power_increasing) simp_all
    with s(2) show "shl32 ?G (lut_bits l) < 2 ^ (3 * ?n)" by (rule order_less_le_trans)
  qed
  have B3: "?B < 2 ^ (3 * ?n)"
  proof -
    have "(2 :: int) ^ ?n \<le> 2 ^ (3 * ?n)" by (rule power_increasing) simp_all
    with B(2) show ?thesis by (rule order_less_le_trans)
  qed
  have RG: "shl32 ?R (lut_bits l * 2) OR shl32 ?G (lut_bits l) < 2 ^ (3 * ?n)"
    using A(1) A(2) A2(2) by (rule OR_upper)
  have RG0: "0 \<le> shl32 ?R (lut_bits l * 2) OR shl32 ?G (lut_bits l)" using A A2 by simp
  have "(shl32 ?R (lut_bits l * 2) OR shl32 ?G (lut_bits l)) OR ?B < 2 ^ (3 * ?n)"
    using RG0 RG B3 by (rule OR_upper)
  moreover have "0 \<le> (shl32 ?R (lut_bits l * 2) OR shl32 ?G (lut_bits l)) OR ?B" using RG0 B by simp
  ultimately show ?thesis by (simp add: lut_key_def)
qed

lemma makeLUT_length:
  assumes "0 \<le> bits0" "bits0 \<le> 8"
  shows "makeLUT bits0 = Inr \<lparr> lut_tab = replicate (2 ^ (3 * nat bits0)) (- 1), lut_bits = bits0, lut_shift = 8 - bits0 \<rparr>"
proof -
  have m: "(bits0 * 3) mod 32 = bits0 * 3" using assms by simp
  have "nat (bits0 * 3) \<le> 24" using assms by simp
  then have "(2 :: int) ^ nat (bits0 * 3) \<le> 2 ^ 24" by (rule power_increasing) simp
  then have s: "shl32 1 (bits0 * 3) = 2 ^ nat (bits0 * 3)" by (simp add: shl32_def m wrap32_id)
  have "nat (bits0 * 3) = 3 * nat bits0" using assms by simp
  then show ?thesis by (simp add: makeLUT_def s Let_def nat_power_eq)
qed

lemma lut_get_replicate: "lut_get (replicate k x) i = Some v \<Longrightarrow> v = x"
  by (auto simp add: lut_get_def split: if_splits)

lemma cachedIdx_None: "cachedIdx None r g b = None"
  by (simp add: cachedIdx_def)

lemma cachedIdx_fresh:
  assumes "makeLUT bits0 = Inr l0"
  shows "cachedIdx (Some l0) r g b = None"
proof -
  from assms have t: "lut_tab l0 = replicate (nat (shl32 1 (bits0 * 3))) (- 1)"
    by (auto simp add: makeLUT_def Let_def split: if_splits)
  show ?thesis
  proof (cases "lut_get (lut_tab l0) (lut_key l0 r g b)")
    case None
    then show ?thesis by (simp add: cachedIdx_def)
  next
    case (Some v)
    then have "v = - 1" unfolding t by (rule lut_get_replicate)
    with Some show ?thesis by (simp add: cachedIdx_def)
  qed
qed

lemma nearestIdx_fresh:
  assumes "makeLUT bits0 = Inr l0"
  shows "map_sum id fst (nearestIdx r g b prep dm (Some l0)) = map_sum id fst (nearestIdx r g b prep dm None)"
  by (simp add: nearestIdx_def cachedIdx_fresh [OF assms] cachedIdx_None split: sum.splits)

lemma nearestIdx_same_bucket:
  assumes prep: "prep = buildPalettePrepared pFlat dm"
    and key: "lut_key l r1 g1 b1 = lut_key l r2 g2 b2"
    and inr: "0 \<le> lut_key l r1 g1 b1" "lut_key l r1 g1 b1 < int (length (lut_tab l))"
  shows "\<exists>i l1 l2. nearestIdx r1 g1 b1 prep dm (Some l) = Inr (i, Some l1)
                 \<and> nearestIdx r2 g2 b2 prep dm (Some l1) = Inr (i, Some l2)"
proof (cases "cachedIdx (Some l) r1 g1 b1")
  case (Some i)
  then have "cachedIdx (Some l) r2 g2 b2 = Some i" using key by (simp add: cachedIdx_def)
  with Some show ?thesis by (simp add: nearestIdx_def)
next
  case None
  let ?i = "exactIdx prep dm (r1, g1, b1)"
  let ?l1 = "l\<lparr> lut_tab := lut_set (lut_tab l) (lut_key l r1 g1 b1) (int ?i) \<rparr>"
  have 1: "nearestIdx r1 g1 b1 prep dm (Some l) = Inr (?i, Some ?l1)"
    using None by (simp add: nearestIdx_def prep fullScan_built)
  have "lut_get (lut_tab ?l1) (lut_key ?l1 r2 g2 b2) = Some (int ?i)"
    using key inr by (simp add: lut_get_set)
  then have "cachedIdx (Some ?l1) r2 g2 b2 = Some ?i" by (simp add: cachedIdx_def)
  then have "nearestIdx r2 g2 b2 prep dm (Some ?l1) = Inr (?i, Some ?l1)" by (simp add: nearestIdx_def)
  with 1 show ?thesis by blast
qed

text \<open>
  Claim C5. For every palette and metric, cache size of 0 to 8 bits and colours with
  channels in 0..255: (i) with a newly created cache \<open>nearestIdx\<close> returns the same index
  (or throws the same error) as with no cache; (ii) two colours with the same cache key,
  queried one after the other against one cache in any state, get the same index.
\<close>

theorem cache_transparency:
  assumes bits: "0 \<le> bits0" "bits0 \<le> 8"
    and fresh: "makeLUT bits0 = Inr l0"
    and st: "cacheState bits0 l"
    and c1: "0 \<le> r1" "r1 \<le> 255" "0 \<le> g1" "g1 \<le> 255" "0 \<le> b1" "b1 \<le> 255"
    and c2: "0 \<le> r2" "r2 \<le> 255" "0 \<le> g2" "g2 \<le> 255" "0 \<le> b2" "b2 \<le> 255"
    and key: "lut_key l (Some r1) (Some g1) (Some b1) = lut_key l (Some r2) (Some g2) (Some b2)"
  shows "map_sum id fst (nearestIdx (Some r1) (Some g1) (Some b1) (buildPalettePrepared pFlat dm) dm (Some l0))
           = map_sum id fst (nearestIdx (Some r1) (Some g1) (Some b1) (buildPalettePrepared pFlat dm) dm None)
       \<and> (\<exists>i l1 l2. nearestIdx (Some r1) (Some g1) (Some b1) (buildPalettePrepared pFlat dm) dm (Some l) = Inr (i, Some l1)
                 \<and> nearestIdx (Some r2) (Some g2) (Some b2) (buildPalettePrepared pFlat dm) dm (Some l1) = Inr (i, Some l2))"
proof -
  from st have p: "lut_bits l = bits0" "lut_shift l = 8 - bits0" "length (lut_tab l) = 2 ^ (3 * nat bits0)"
    by (simp_all add: cacheState_def makeLUT_length [OF bits])
  have "0 \<le> lut_key l (Some r1) (Some g1) (Some b1) \<and> lut_key l (Some r1) (Some g1) (Some b1) < 2 ^ (3 * nat (lut_bits l))"
    by (rule lut_key_range) (use c1 bits p in simp_all)
  then have inr: "0 \<le> lut_key l (Some r1) (Some g1) (Some b1)" "lut_key l (Some r1) (Some g1) (Some b1) < int (length (lut_tab l))"
    using p by simp_all
  show ?thesis
    using nearestIdx_fresh [OF fresh] nearestIdx_same_bucket [OF refl key inr] by blast
qed

text \<open>
  Witness for C5: with 5 bits, \<open>(0,0,0)\<close> and \<open>(7,7,7)\<close> share key 0.
\<close>

theorem cache_transparency_witness:
  "(0 :: int) \<le> 5 \<and> (5 :: int) \<le> 8
   \<and> makeLUT 5 = Inr \<lparr> lut_tab = replicate 32768 (- 1), lut_bits = 5, lut_shift = 3 \<rparr>
   \<and> cacheState 5 \<lparr> lut_tab = replicate 32768 (- 1), lut_bits = 5, lut_shift = 3 \<rparr>
   \<and> lut_key \<lparr> lut_tab = replicate 32768 (- 1), lut_bits = 5, lut_shift = 3 \<rparr> (Some 0) (Some 0) (Some 0)
       = lut_key \<lparr> lut_tab = replicate 32768 (- 1), lut_bits = 5, lut_shift = 3 \<rparr> (Some 7) (Some 7) (Some 7)
   \<and> map_sum id fst (nearestIdx (Some 0) (Some 0) (Some 0) (buildPalettePrepared [0, 0, 0, 7, 7, 7] RGB) RGB
                        (Some \<lparr> lut_tab = replicate 32768 (- 1), lut_bits = 5, lut_shift = 3 \<rparr>))
       = map_sum id fst (nearestIdx (Some 0) (Some 0) (Some 0) (buildPalettePrepared [0, 0, 0, 7, 7, 7] RGB) RGB None)
   \<and> (\<exists>i l1 l2. nearestIdx (Some 0) (Some 0) (Some 0) (buildPalettePrepared [0, 0, 0, 7, 7, 7] RGB) RGB
                        (Some \<lparr> lut_tab = replicate 32768 (- 1), lut_bits = 5, lut_shift = 3 \<rparr>) = Inr (i, Some l1)
                 \<and> nearestIdx (Some 7) (Some 7) (Some 7) (buildPalettePrepared [0, 0, 0, 7, 7, 7] RGB) RGB (Some l1) = Inr (i, Some l2))"
proof -
  let ?l = "\<lparr> lut_tab = replicate 32768 (- 1), lut_bits = 5, lut_shift = 3 \<rparr>"
  have m: "makeLUT 5 = Inr ?l"
    by (simp add: makeLUT_def shl32_def wrap32_def)
  have s: "cacheState 5 ?l" by (simp add: cacheState_def m)
  have k: "lut_key ?l (Some 0) (Some 0) (Some 0) = lut_key ?l (Some 7) (Some 7) (Some 7)"
    by (simp add: lut_key_def shl32_def sar32_def toInt32_def wrap32_def)
  show ?thesis
    using cache_transparency [of 5 ?l ?l 0 0 0 7 7 7 "[0, 0, 0, 7, 7, 7]" RGB, OF _ _ m s _ _ _ _ _ _ _ _ _ _ _ _ k] m s k
    by simp
qed

section \<open>Quantizing an image of palette colours\<close>

lemma sqDist3_nonneg: "0 \<le> sqDist3 u v"
  by (cases u, cases v) (simp add: sqDist3_def)

lemma sqDist3_zero_iff: "sqDist3 u v = 0 \<longleftrightarrow> u = v"
proof (cases u, cases v)
  fix u1 u2 u3 v1 v2 v3 :: real
  assume u: "u = (u1, u2, u3)" and v: "v = (v1, v2, v3)"
  have "(u1 - v1) * (u1 - v1) + (u2 - v2) * (u2 - v2) + (u3 - v3) * (u3 - v3) = 0
        \<longleftrightarrow> u1 - v1 = 0 \<and> u2 - v2 = 0 \<and> u3 - v3 = 0"
    by (metis (no_types, opaque_lifting) add_nonneg_eq_0_iff add_nonneg_nonneg mult_eq_0_iff zero_le_square)
  then show ?thesis by (simp add: sqDist3_def u v)
qed

lemma colourDist_nonneg: "0 \<le> colourDist dm c c'"
  by (cases dm) (auto simp add: colourDist_def sqDist3_nonneg split: prod.splits)

lemma colourDist_self: "colourDist dm c c = 0"
  by (cases dm) (auto simp add: colourDist_def sqDist3_zero_iff split: prod.splits)

lemma colourDist_RGB_zero: "colourDist RGB c c' = 0 \<Longrightarrow> c = c'"
  by (simp add: colourDist_def sqDist3_zero_iff)

lemma powr_24_fifth:
  fixes t :: real
  assumes t: "0 < t"
  shows "(t powr 2.4) ^ 5 = t ^ 12"
proof -
  have "(t powr 2.4) ^ 5 = (t powr 2.4) powr (real 5)"
    by (simp add: powr_realpow [symmetric])
  also have "\<dots> = t powr (2.4 * 5)" by (simp add: powr_powr)
  also have "\<dots> = t powr (real 12)" by simp
  also have "\<dots> = t ^ 12" using t by (simp only: powr_realpow)
  finally show ?thesis .
qed

text \<open>
  The two branches of \<open>srgbToLinear\<close> meet in the right order at the threshold, which
  makes the function strictly increasing and the OKLab conversion injective.
\<close>

lemma threshold_gap: "(0.04045 :: real) / 12.92 \<le> ((0.04045 + 0.055) / 1.055) powr 2.4"
proof (rule ccontr)
  let ?t = "(0.04045 + 0.055) / 1.055 :: real"
  let ?A = "0.04045 / 12.92 :: real"
  assume "\<not> ?A \<le> ?t powr 2.4"
  then have "?t powr 2.4 < ?A" by simp
  moreover have "0 \<le> ?t powr 2.4" by simp
  ultimately have "(?t powr 2.4) ^ 5 < ?A ^ 5" by (intro power_strict_mono) simp_all
  moreover have "(?t powr 2.4) ^ 5 = ?t ^ 12" by (rule powr_24_fifth) simp
  moreover have "?A ^ 5 \<le> ?t ^ 12" by (simp add: power_divide)
  ultimately show False by simp
qed

lemma srgbToLinear_strict_mono:
  assumes "x < y"
  shows "srgbToLinear x < srgbToLinear y"
proof -
  let ?b = "\<lambda>c :: real. (c / 255 + 0.055) / 1.055"
  consider (low) "y / 255 \<le> 0.04045" | (high) "0.04045 < x / 255" | (cross) "x / 255 \<le> 0.04045" "0.04045 < y / 255"
    by linarith
  then show ?thesis
  proof cases
    case low
    then have "x / 255 \<le> 0.04045" using assms by simp
    with low assms show ?thesis by (simp add: srgbToLinear_def Let_def divide_strict_right_mono)
  next
    case high
    then have hy: "0.04045 < y / 255" using assms by simp
    have "0 \<le> ?b x" using high by simp
    moreover have "?b x < ?b y" using assms by (simp add: divide_strict_right_mono)
    ultimately have "?b x powr 2.4 < ?b y powr 2.4" by (intro powr_less_mono2) simp_all
    with high hy show ?thesis by (simp add: srgbToLinear_def Let_def)
  next
    case cross
    have "x / 255 / 12.92 \<le> 0.04045 / 12.92" using cross(1) by (simp add: divide_right_mono)
    also have "\<dots> \<le> ((0.04045 + 0.055) / 1.055) powr 2.4" by (rule threshold_gap)
    also have "\<dots> < ?b y powr 2.4"
      using cross(2) by (intro powr_less_mono2) (simp_all add: divide_strict_right_mono)
    finally show ?thesis using cross by (simp add: srgbToLinear_def Let_def)
  qed
qed

lemma srgbToLinear_inj: "srgbToLinear x = srgbToLinear y \<Longrightarrow> x = y"
  using srgbToLinear_strict_mono [of x y] srgbToLinear_strict_mono [of y x] by (cases x y rule: linorder_cases) auto

lemma lms_inj:
  fixes x1 x2 x3 y1 y2 y3 :: real
  assumes "0.4122214708 * x1 + 0.5363325363 * x2 + 0.0514459929 * x3 = 0.4122214708 * y1 + 0.5363325363 * y2 + 0.0514459929 * y3"
    and "0.2119034982 * x1 + 0.6806995451 * x2 + 0.1073969566 * x3 = 0.2119034982 * y1 + 0.6806995451 * y2 + 0.1073969566 * y3"
    and "0.0883024619 * x1 + 0.2817188376 * x2 + 0.6299787005 * x3 = 0.0883024619 * y1 + 0.2817188376 * y2 + 0.6299787005 * y3"
  shows "x1 = y1 \<and> x2 = y2 \<and> x3 = y3"
proof (intro conjI)
  show "x1 = y1" using assms by algebra
  show "x2 = y2" using assms by algebra
  show "x3 = y3" using assms by algebra
qed

lemma lab_inj:
  fixes x1 x2 x3 y1 y2 y3 :: real
  assumes "0.2104542553 * x1 + 0.7936177850 * x2 - 0.0040720468 * x3 = 0.2104542553 * y1 + 0.7936177850 * y2 - 0.0040720468 * y3"
    and "1.9779984951 * x1 - 2.4285922050 * x2 + 0.4505937099 * x3 = 1.9779984951 * y1 - 2.4285922050 * y2 + 0.4505937099 * y3"
    and "0.0259040371 * x1 + 0.7827717662 * x2 - 0.8086757660 * x3 = 0.0259040371 * y1 + 0.7827717662 * y2 - 0.8086757660 * y3"
  shows "x1 = y1 \<and> x2 = y2 \<and> x3 = y3"
proof (intro conjI)
  show "x1 = y1" using assms by algebra
  show "x2 = y2" using assms by algebra
  show "x3 = y3" using assms by algebra
qed

lemma rgbToOklab_inj:
  assumes "rgbToOklab r g b = rgbToOklab r' g' b'"
  shows "r = r' \<and> g = g' \<and> b = b'"
proof -
  let ?l = "\<lambda>r g b. 0.4122214708 * srgbToLinear r + 0.5363325363 * srgbToLinear g + 0.0514459929 * srgbToLinear b"
  let ?m = "\<lambda>r g b. 0.2119034982 * srgbToLinear r + 0.6806995451 * srgbToLinear g + 0.1073969566 * srgbToLinear b"
  let ?s = "\<lambda>r g b. 0.0883024619 * srgbToLinear r + 0.2817188376 * srgbToLinear g + 0.6299787005 * srgbToLinear b"
  from assms have
    "0.2104542553 * root 3 (?l r g b) + 0.7936177850 * root 3 (?m r g b) - 0.0040720468 * root 3 (?s r g b)
      = 0.2104542553 * root 3 (?l r' g' b') + 0.7936177850 * root 3 (?m r' g' b') - 0.0040720468 * root 3 (?s r' g' b')"
    "1.9779984951 * root 3 (?l r g b) - 2.4285922050 * root 3 (?m r g b) + 0.4505937099 * root 3 (?s r g b)
      = 1.9779984951 * root 3 (?l r' g' b') - 2.4285922050 * root 3 (?m r' g' b') + 0.4505937099 * root 3 (?s r' g' b')"
    "0.0259040371 * root 3 (?l r g b) + 0.7827717662 * root 3 (?m r g b) - 0.8086757660 * root 3 (?s r g b)
      = 0.0259040371 * root 3 (?l r' g' b') + 0.7827717662 * root 3 (?m r' g' b') - 0.8086757660 * root 3 (?s r' g' b')"
    by (simp_all add: rgbToOklab_def Let_def)
  from lab_inj [OF this] have "root 3 (?l r g b) = root 3 (?l r' g' b')" "root 3 (?m r g b) = root 3 (?m r' g' b')"
      "root 3 (?s r g b) = root 3 (?s r' g' b')" by simp_all
  moreover have inj3: "root 3 u = root 3 v \<Longrightarrow> u = v" for u v :: real
    using real_root_eq_iff [of 3 u v] by simp
  ultimately have "?l r g b = ?l r' g' b'" "?m r g b = ?m r' g' b'" "?s r g b = ?s r' g' b'"
    by (blast intro: inj3)+
  from lms_inj [OF this] show ?thesis by (simp add: srgbToLinear_inj)
qed

lemma colourDist_zero: "colourDist dm c c' = 0 \<Longrightarrow> c = c'"
proof (cases dm)
  case RGB
  assume "colourDist dm c c' = 0"
  with RGB show ?thesis by (simp add: colourDist_RGB_zero)
next
  case OKLab
  assume z: "colourDist dm c c' = 0"
  obtain r g b where c: "c = (r, g, b)" by (cases c)
  obtain r' g' b' where c': "c' = (r', g', b')" by (cases c')
  from z OKLab have "rgbToOklab r g b = rgbToOklab r' g' b'"
    by (simp add: colourDist_def c c' sqDist3_zero_iff)
  then show ?thesis using rgbToOklab_inj c c' by simp
qed

lemma foldE_id: "(\<And>x. x \<in> set xs \<Longrightarrow> f x s = Inr s) \<Longrightarrow> foldE f xs s = Inr s"
  by (induction xs) simp_all

lemma nearestPaletteColor_member:
  assumes "(r, g, b) \<in> set pal"
  shows "nearestPaletteColor (Some r) (Some g) (Some b) pal dm = Some (r, g, b)"
proof -
  have ne: "pal \<noteq> []" using assms by auto
  from nearestPaletteColor_first_minimum [OF ne, of r g b dm] obtain j where
    j: "nearestPaletteColor (Some r) (Some g) (Some b) pal dm = Some (pal ! j)" "j < length pal"
       "\<forall>i<length pal. colourDist dm (r, g, b) (pal ! j) \<le> colourDist dm (r, g, b) (pal ! i)"
    by blast
  from assms obtain i0 where i0: "i0 < length pal" "pal ! i0 = (r, g, b)" by (auto simp add: in_set_conv_nth)
  with j(3) have "colourDist dm (r, g, b) (pal ! j) \<le> colourDist dm (r, g, b) (r, g, b)" by metis
  then have "colourDist dm (r, g, b) (pal ! j) = 0"
    using colourDist_nonneg [of dm "(r, g, b)" "pal ! j"] by (simp add: colourDist_self)
  then have "pal ! j = (r, g, b)" using colourDist_zero by metis
  with j(1) show ?thesis by simp
qed

lemma advNonePixel_id:
  assumes "i + 2 < length d" and "(byte_val (d ! i), byte_val (d ! (i + 1)), byte_val (d ! (i + 2))) \<in> set pal"
  shows "advNonePixel pal dm i d = Inr d"
  using assms by (simp add: advNonePixel_def u8_get_def nearestPaletteColor_member)

lemma newImageData_wf: "wf_image img \<Longrightarrow> newImageData (img_data img) (img_width img) (img_height img) = Inr img"
  by (simp add: wf_image_def newImageData_def mult.assoc)

lemma quantizeToPaletteAdvanced_idempotent:
  assumes wf: "wf_image img"
    and none: "opt_dithering opts = None \<or> opt_dithering opts = Some NoneMode"
    and cols: "\<forall>k < img_width img * img_height img. pixelColour (img_data img) k \<in> set pal"
  shows "quantizeToPaletteAdvanced img pal opts = Inr img"
proof (cases "pal = []")
  case True
  then show ?thesis by (simp add: quantizeToPaletteAdvanced_def)
next
  case False
  let ?d = "img_data img"
  let ?dm = "case opt_distance opts of None \<Rightarrow> OKLab | Some v \<Rightarrow> v"
  have len: "length ?d = 4 * (img_width img * img_height img)" using wf by (simp add: wf_image_def)
  have "foldE (advNonePixel pal ?dm) (map (\<lambda>k. 4 * k) [0..<(length ?d + 3) div 4]) ?d = Inr ?d"
  proof (rule foldE_id)
    fix x assume "x \<in> set (map (\<lambda>k. 4 * k) [0..<(length ?d + 3) div 4])"
    then obtain k where k: "x = 4 * k" "k < img_width img * img_height img" using len by auto
    then have "x + 2 < length ?d" using len by simp
    moreover have "(byte_val (?d ! x), byte_val (?d ! (x + 1)), byte_val (?d ! (x + 2))) \<in> set pal"
      using cols k by (simp add: pixelColour_def mult.commute)
    ultimately show "advNonePixel pal ?dm x ?d = Inr ?d" by (rule advNonePixel_id)
  qed
  then show ?thesis
    using False none newImageData_wf [OF wf]
    by (auto simp add: quantizeToPaletteAdvanced_def Let_def)
qed

lemma byte_val_inj: "byte_val a = byte_val b \<Longrightarrow> a = b"
  by (metis to_u8c_byte)

lemma nearestIdx_None_built:
  "nearestIdx r g b (buildPalettePrepared pFlat dm) dm None = Inr (exactIdx (buildPalettePrepared pFlat dm) dm (r, g, b), None)"
  by (simp add: nearestIdx_def cachedIdx_None fullScan_built)

lemma take4_Suc:
  assumes "k * 4 + 3 < length d"
  shows "take (Suc k * 4) d = take (k * 4) d @ [d ! (k * 4), d ! (k * 4 + 1), d ! (k * 4 + 2), d ! (k * 4 + 3)]"
proof -
  have "take (Suc (Suc (Suc (Suc (k * 4))))) d
      = take (k * 4) d @ [d ! (k * 4), d ! Suc (k * 4), d ! Suc (Suc (k * 4)), d ! Suc (Suc (Suc (k * 4)))]"
    using assms by (simp add: take_Suc_conv_app_nth)
  then show ?thesis by (simp add: numeral_eq_Suc)
qed

lemma concat_quads_take:
  "k * 4 \<le> length d \<Longrightarrow>
   concat (map (\<lambda>p. [d ! (p * 4), d ! (p * 4 + 1), d ! (p * 4 + 2), d ! (p * 4 + 3)]) [0..<k]) = take (k * 4) d"
proof (induction k)
  case 0
  then show ?case by simp
next
  case (Suc k)
  then have "k * 4 + 3 < length d" by simp
  from take4_Suc [OF this] Suc show ?case by simp
qed

lemma exact_quad_of_member:
  assumes len: "p * 4 + 3 < length d"
    and mem: "\<exists>i < length pFlat div 3. paletteEntry pFlat i = pixelColour d p"
  shows "paletteQuad (buildPalettePrepared pFlat dm) (exactIdx (buildPalettePrepared pFlat dm) dm (srcColour d p))
       = [d ! (p * 4), d ! (p * 4 + 1), d ! (p * 4 + 2), 255]"
proof -
  let ?prep = "buildPalettePrepared pFlat dm"
  obtain r g b where c: "pixelColour d p = (r, g, b)" by (cases "pixelColour d p")
  have sc: "srcColour d p = (Some r, Some g, Some b)"
    using len c by (simp add: srcColour_def pixelColour_def u8_get_def)
  from mem obtain i0 where i0: "i0 < length pFlat div 3" "paletteEntry pFlat i0 = (r, g, b)" using c by auto
  then have n: "3 \<le> length pFlat" by simp
  from nearestIdx_scan_first_minimum [OF n, of r g b dm] obtain j where
    j: "nearestIdx (Some r) (Some g) (Some b) ?prep dm None = Inr (j, None)" "j < length pFlat div 3"
       "\<forall>i<length pFlat div 3. metricDist pFlat dm (r, g, b) j \<le> metricDist pFlat dm (r, g, b) i"
    by blast
  have ej: "exactIdx ?prep dm (srcColour d p) = j"
    using j(1) by (simp add: nearestIdx_None_built sc)
  have "metricDist pFlat dm (r, g, b) j \<le> metricDist pFlat dm (r, g, b) i0" using j(3) i0(1) by blast
  also have "\<dots> = 0" by (simp add: metricDist_def i0(2) colourDist_self)
  finally have "metricDist pFlat dm (r, g, b) j = 0"
    using colourDist_nonneg [of dm "(r, g, b)" "paletteEntry pFlat j"] by (simp add: metricDist_def)
  then have "paletteEntry pFlat j = (r, g, b)"
    using colourDist_zero [of dm "(r, g, b)" "paletteEntry pFlat j"] by (simp add: metricDist_def)
  then have "pFlat ! (j * 3) = d ! (p * 4)" "pFlat ! (j * 3 + 1) = d ! (p * 4 + 1)" "pFlat ! (j * 3 + 2) = d ! (p * 4 + 2)"
    using c by (simp_all add: paletteEntry_def pixelColour_def byte_val_inj)
  then show ?thesis
    using j(2) by (simp add: ej paletteQuad_def to_u8c_u8_get built_nth)
qed

lemma doNoneOrOrdered_idempotent:
  assumes md: "mode job = NoneMode"
    and whole: "yStart job = None" "yEnd job = None"
    and len: "length (src job) = 4 * (width job * height job)"
    and bits: "0 \<le> jobBits job" "jobBits job \<le> 8"
    and bc: "bucketConsistent job"
    and cols: "\<forall>k < width job * height job. \<exists>i < length (palette job) div 3. paletteEntry (palette job) i = pixelColour (src job) k"
    and alpha: "\<forall>k < width job * height job. src job ! (k * 4 + 3) = 255"
  shows "doNoneOrOrdered job = Inr (src job)"
proof -
  let ?l = "\<lparr> lut_tab = replicate (2 ^ (3 * nat (jobBits job))) (- 1), lut_bits = jobBits job, lut_shift = 8 - jobBits job \<rparr>"
  let ?prep = "buildPalettePrepared (palette job) (distance job)"
  let ?N = "height job * width job"
  let ?d = "src job"
  have lut: "makeLUT (jobBits job) = Inr ?l" by (rule makeLUT_length [OF bits])
  have cons: "consistentOn ?prep (distance job) ?l (srcColour ?d ` {..<?N})"
    using bc consistentOn_params [of ?l "\<lparr> lut_tab = [], lut_bits = jobBits job, lut_shift = 8 - jobBits job \<rparr>"
          ?prep "distance job" "srcColour ?d ` {..<?N}"]
    by (simp add: bucketConsistent_iff mult.commute)
  have "doNoneOrOrdered job = Inr (concat (map (\<lambda>p. paletteQuad ?prep (exactIdx ?prep (distance job) (srcColour ?d p))) [0..<?N]))"
    using doNoneOrOrdered_exact [OF md lut] cons whole by simp
  also have "map (\<lambda>p. paletteQuad ?prep (exactIdx ?prep (distance job) (srcColour ?d p))) [0..<?N]
           = map (\<lambda>p. [?d ! (p * 4), ?d ! (p * 4 + 1), ?d ! (p * 4 + 2), ?d ! (p * 4 + 3)]) [0..<?N]"
  proof (rule map_cong [OF refl])
    fix p assume "p \<in> set [0..<?N]"
    then have p: "p < width job * height job" by (simp add: mult.commute)
    then have "p * 4 + 3 < length ?d" using len by simp
    from exact_quad_of_member [OF this, of "palette job" "distance job"] cols alpha p
    show "paletteQuad ?prep (exactIdx ?prep (distance job) (srcColour ?d p))
        = [?d ! (p * 4), ?d ! (p * 4 + 1), ?d ! (p * 4 + 2), ?d ! (p * 4 + 3)]" by simp
  qed
  also have "concat (map (\<lambda>p. [?d ! (p * 4), ?d ! (p * 4 + 1), ?d ! (p * 4 + 2), ?d ! (p * 4 + 3)]) [0..<?N]) = take (?N * 4) ?d"
    by (rule concat_quads_take) (simp add: len mult.commute)
  also have "take (?N * 4) ?d = ?d" using len by (simp add: mult.commute)
  finally show ?thesis .
qed

lemmas fast_eval =
  quantizeToPaletteAdvancedFast_def submit_def onmessage_def stripJob_def setAt_def newImageData_def
  paletteToFlat_def to_u8_def



lemma all_less_2: "(\<forall>k < 2. P k) \<longleftrightarrow> P 0 \<and> P (Suc 0)"
  by (auto simp add: less_Suc_eq numeral_2_eq_2)

lemma ex_less_3: "(\<exists>i < 3. P i) \<longleftrightarrow> P 0 \<or> P (Suc 0) \<or> P 2"
  by (auto simp add: less_Suc_eq numeral_3_eq_3 numeral_2_eq_2)



section \<open>Malformed requests\<close>

lemma foldE_invariant:
  assumes "\<And>x s. I s \<Longrightarrow> \<exists>s'. f x s = Inr s' \<and> I s'"
  shows "I s \<Longrightarrow> \<exists>s'. foldE f xs s = Inr s' \<and> I s'"
proof (induction xs arbitrary: s)
  case Nil
  then show ?case by simp
next
  case (Cons x xs)
  from assms [OF Cons.prems, of x] obtain s1 where "f x s = Inr s1" "I s1" by blast
  with Cons.IH [of s1] show ?case by simp
qed

lemma nearestIdx_built_total:
  "\<exists>idx l'. nearestIdx r g b (buildPalettePrepared pFlat dm) dm (Some l) = Inr (idx, Some l')"
  by (cases "cachedIdx (Some l) r g b") (simp_all add: nearestIdx_def fullScan_built)

lemma length_writePixel [simp]: "length (writePixel prep idx off out) = length out"
  by (simp add: writePixel_def)

lemma noneOrOrderedPixel_total:
  assumes "\<exists>l. fst st = Some l" and "length (snd st) = k"
  shows "\<exists>st'. noneOrOrderedPixel w srcArr (buildPalettePrepared pFlat dm) dm md strength y0 y x st = Inr st'
            \<and> (\<exists>l. fst st' = Some l) \<and> length (snd st') = k"
proof -
  obtain l out where st: "st = (Some l, out)" using assms(1) by (cases st) auto
  obtain r g b where c: "orderedPerturb md strength y x
        (u8_get srcArr (((y - y0) * w + x) * 4), u8_get srcArr (((y - y0) * w + x) * 4 + 1), u8_get srcArr (((y - y0) * w + x) * 4 + 2)) = (r, g, b)"
    by (metis prod_cases3)
  obtain idx l' where n: "nearestIdx r g b (buildPalettePrepared pFlat dm) dm (Some l) = Inr (idx, Some l')"
    using nearestIdx_built_total by blast
  show ?thesis using assms(2)
    by (simp only: noneOrOrderedPixel_def Let_def st c n prod.case sum.case) simp
qed

lemma doNoneOrOrdered_total:
  assumes lut: "makeLUT (jobBits job) = Inr l"
    and rng: "(case yStart job of None \<Rightarrow> 0 | Some v \<Rightarrow> v) \<le> (case yEnd job of None \<Rightarrow> height job | Some v \<Rightarrow> v)"
  shows "\<exists>out. doNoneOrOrdered job = Inr out
           \<and> length out = ((case yEnd job of None \<Rightarrow> height job | Some v \<Rightarrow> v) - (case yStart job of None \<Rightarrow> 0 | Some v \<Rightarrow> v)) * width job * 4"
proof -
  define y0 where "y0 = (case yStart job of None \<Rightarrow> 0 | Some v \<Rightarrow> v)"
  define y1 where "y1 = (case yEnd job of None \<Rightarrow> height job | Some v \<Rightarrow> v)"
  define prep where "prep = buildPalettePrepared (palette job) (distance job)"
  define st where "st = clamp255 (Some (255 * (case orderedStrength job of None \<Rightarrow> 0.5 | Some v \<Rightarrow> v)))"
  define k where "k = (y1 - y0) * width job * 4"
  let ?I = "\<lambda>s :: LUT option \<times> byte list. (\<exists>l. fst s = Some l) \<and> length (snd s) = k"
  have row: "\<exists>s'. foldE (noneOrOrderedPixel (width job) (src job) prep (distance job) (mode job) st y0 y) [0..<width job] s = Inr s' \<and> ?I s'"
    if "?I s" for y s
    using that
    by (rule foldE_invariant [where I = ?I, rotated])
       (use noneOrOrderedPixel_total [where pFlat = "palette job" and dm = "distance job"] in \<open>simp add: prep_def\<close>)
  have "\<exists>s'. noneOrOrderedLoops (width job) (src job) prep (distance job) (mode job) st y0 y1 (Some l, replicate k 0) = Inr s' \<and> ?I s'"
    unfolding noneOrOrderedLoops_def
    by (rule foldE_invariant [where I = ?I]) (use row in simp_all)
  then obtain l' out where run: "noneOrOrderedLoops (width job) (src job) prep (distance job) (mode job) st y0 y1 (Some l, replicate k 0) = Inr (Some l', out)"
      and len: "length out = k"
    by fastforce
  have "\<not> (y1 < y0 \<and> 0 < width job)" using rng by (simp add: y0_def y1_def)
  then have "doNoneOrOrdered job = Inr out"
    using lut run
    by (simp add: doNoneOrOrdered_def Let_def jobBits_def
        y0_def [symmetric] y1_def [symmetric] prep_def [symmetric] st_def [symmetric] k_def [symmetric])
  with len show ?thesis by (simp add: k_def y0_def y1_def)
qed

lemma diffusionPixel_total:
  assumes "\<exists>l. fst st = Some l" and "length (fst (snd st)) = k"
  shows "\<exists>st'. diffusionPixel w h srcArr (buildPalettePrepared pFlat dm) dm wts y dir x st = Inr st'
            \<and> (\<exists>l. fst st' = Some l) \<and> length (fst (snd st')) = k"
proof -
  obtain l out buf where st: "st = (Some l, out, buf)" using assms(1) by (cases st) auto
  define r where "r = clamp255 (num_add (u8_get srcArr ((y * w + x) * 4)) (buf_get buf ((y * w + x) * 3)))"
  define g where "g = clamp255 (num_add (u8_get srcArr ((y * w + x) * 4 + 1)) (buf_get buf ((y * w + x) * 3 + 1)))"
  define b where "b = clamp255 (num_add (u8_get srcArr ((y * w + x) * 4 + 2)) (buf_get buf ((y * w + x) * 3 + 2)))"
  obtain idx l' where n: "nearestIdx r g b (buildPalettePrepared pFlat dm) dm (Some l) = Inr (idx, Some l')"
    using nearestIdx_built_total by blast
  show ?thesis using assms(2)
    by (simp only: diffusionPixel_def Let_def st r_def [symmetric] g_def [symmetric] b_def [symmetric]
          n prod.case sum.case) simp
qed

lemma doDiffusion_total:
  assumes lut: "makeLUT (jobBits job) = Inr l" and md: "mode job \<noteq> OptimisedCustom"
  shows "\<exists>out. doDiffusion job = Inr out \<and> length out = width job * height job * 4"
proof -
  define prep where "prep = buildPalettePrepared (palette job) (distance job)"
  define k where "k = width job * height job * 4"
  define wts where "wts = (if mode job = Atkinson then weightsAtk else weightsFS)"
  let ?I = "\<lambda>s :: LUT option \<times> byte list \<times> num list. (\<exists>l. fst s = Some l) \<and> length (fst (snd s)) = k"
  have row: "\<exists>s'. foldE (diffusionPixel (width job) (height job) (src job) prep (distance job) wts y dir) xs s = Inr s' \<and> ?I s'"
    if "?I s" for y dir xs s
    using that
    by (rule foldE_invariant [where I = ?I, rotated])
       (use diffusionPixel_total [where pFlat = "palette job" and dm = "distance job"] in \<open>simp add: prep_def\<close>)
  have "\<exists>s'. foldE (\<lambda>y. foldE (diffusionPixel (width job) (height job) (src job) prep (distance job) wts y
                                            (scanDir (serpentine job) y))
                                     (rowOrder (width job) (scanDir (serpentine job) y)))
                  [0..<height job] (Some l, replicate k 0, replicate (width job * height job * 3) (Some 0)) = Inr s' \<and> ?I s'"
    by (rule foldE_invariant [where I = ?I]) (use row in simp_all)
  then obtain l' out buf' where run: "foldE (\<lambda>y. foldE (diffusionPixel (width job) (height job) (src job) prep (distance job) wts y
                                            (scanDir (serpentine job) y))
                                     (rowOrder (width job) (scanDir (serpentine job) y)))
                  [0..<height job] (Some l, replicate k 0, replicate (width job * height job * 3) (Some 0)) = Inr (Some l', out, buf')"
      and len: "length out = k"
    by fastforce
  have "doDiffusion job = Inr out"
    using lut md run
    by (simp add: doDiffusion_def Let_def jobBits_def
        prep_def [symmetric] wts_def [symmetric] k_def [symmetric])
  with len show ?thesis by (simp add: k_def)
qed





section \<open>Error diffusion: what one step distributes\<close>

lemma num_val_Some [simp]: "num_val (Some r) = r"
  by (simp add: num_val_def)

lemma in_frame_index:
  assumes "0 \<le> nx" "nx < int w" "0 \<le> ny" "ny < int h"
  shows "nat ((ny * int w + nx) * 3) + 3 \<le> w * h * 3"
proof -
  have "ny + 1 \<le> int h" using assms by simp
  then have "(ny + 1) * int w \<le> int h * int w" by (rule mult_right_mono) simp
  then have "ny * int w + nx + 1 \<le> int w * int h" using assms(2) by (simp add: algebra_simps)
  then have "(ny * int w + nx) * 3 + 3 \<le> int (w * h * 3)" by simp
  moreover have "0 \<le> (ny * int w + nx) * 3" using assms by simp
  ultimately show ?thesis by linarith
qed

lemma diffuseTo_step:
  assumes len: "length buf = w * h * 3" and some: "None \<notin> set buf"
  shows "length (diffuseTo w h x y dir (Some er, Some eg, Some eb) wt buf) = w * h * 3
       \<and> None \<notin> set (diffuseTo w h x y dir (Some er, Some eg, Some eb) wt buf)
       \<and> (\<forall>k<w * h * 3. num_val (diffuseTo w h x y dir (Some er, Some eg, Some eb) wt buf ! k)
                = num_val (buf ! k) + contrib w h x y dir [er, eg, eb] wt k)"
proof -
  obtain dx dy f where wt: "wt = (dx, dy, f)" by (cases wt) auto
  show ?thesis
  proof (cases "inFrameAt w h x y dir dx dy")
    case False
    then have "diffuseTo w h x y dir (Some er, Some eg, Some eb) wt buf = buf"
      by (auto simp add: diffuseTo_def wt inFrameAt_def Let_def)
    then show ?thesis using len some False by (simp add: contrib_def wt)
  next
    case True
    define T where "T = nat (((int y + dy) * int w + (int x + dx * dir)) * 3)"
    have T: "T + 3 \<le> w * h * 3"
      unfolding T_def using True by (intro in_frame_index) (simp_all add: inFrameAt_def)
    have g: "\<And>k. k < w * h * 3 \<Longrightarrow> \<exists>r. buf ! k = Some r"
      using some len by (metis nth_mem not_None_eq)
    obtain r0 r1 r2 where r: "buf ! T = Some r0" "buf ! (T + 1) = Some r1" "buf ! (T + 2) = Some r2"
      using g [of T] g [of "T + 1"] g [of "T + 2"] T by auto
    have c: "\<not> (int x + dx * dir < 0 \<or> int x + dx * dir \<ge> int w \<or> int y + dy < 0 \<or> int y + dy \<ge> int h)"
      using True by (auto simp add: inFrameAt_def)
    have d0: "diffuseTo w h x y dir (Some er, Some eg, Some eb) wt buf
              = buf[T := num_add (buf_get buf T) (num_mul (Some er) (Some f)),
                    T + 1 := num_add (buf_get buf (T + 1)) (num_mul (Some eg) (Some f)),
                    T + 2 := num_add (buf_get buf (T + 2)) (num_mul (Some eb) (Some f))]"
      by (simp only: diffuseTo_def wt prod.case Let_def c if_False T_def)
    have d: "diffuseTo w h x y dir (Some er, Some eg, Some eb) wt buf
              = buf[T := Some (r0 + er * f), T + 1 := Some (r1 + eg * f), T + 2 := Some (r2 + eb * f)]"
      unfolding d0 using T r len by (simp add: buf_get_def num_add_def num_mul_def)
    have s: "None \<notin> set (buf[T := Some (r0 + er * f), T + 1 := Some (r1 + eg * f), T + 2 := Some (r2 + eb * f)])"
      using some by (metis (no_types, lifting) insertE option.distinct(1) set_update_subset_insert subsetD)
    have c2: "contrib w h x y dir [er, eg, eb] wt k = (if T \<le> k \<and> k < T + 3 then [er, eg, eb] ! (k - T) * f else 0)" for k
      by (simp only: contrib_def wt prod.case True T_def simp_thms)
    have v: "num_val (buf[T := Some (r0 + er * f), T + 1 := Some (r1 + eg * f), T + 2 := Some (r2 + eb * f)] ! k)
                = num_val (buf ! k) + contrib w h x y dir [er, eg, eb] wt k" if "k < w * h * 3" for k
    proof -
      consider "k = T" | "k = T + 1" | "k = T + 2" | "k < T \<or> T + 3 \<le> k" by linarith
      then show ?thesis
      proof cases
        case 1 then show ?thesis using T r len by (simp add: c2)
      next
        case 2 then show ?thesis using T r len by (simp add: c2)
      next
        case 3 then show ?thesis using T r len by (simp add: c2)
      next
        case 4 then show ?thesis using T r len that by (auto simp add: c2)
      qed
    qed
    show ?thesis unfolding d using len s v by simp
  qed
qed

lemma distributeError_gain:
  assumes "length buf = w * h * 3" and "None \<notin> set buf"
  shows "length (distributeError w h x y dir (Some er, Some eg, Some eb) wts buf) = w * h * 3
       \<and> None \<notin> set (distributeError w h x y dir (Some er, Some eg, Some eb) wts buf)
       \<and> (\<forall>k<w * h * 3. num_val (distributeError w h x y dir (Some er, Some eg, Some eb) wts buf ! k)
                = num_val (buf ! k) + (\<Sum>wt\<leftarrow>wts. contrib w h x y dir [er, eg, eb] wt k))"
  using assms
proof (induction wts arbitrary: buf)
  case Nil
  then show ?case by (simp add: distributeError_def)
next
  case (Cons wt wts)
  note st = diffuseTo_step [OF Cons.prems, of x y dir er eg eb wt]
  from Cons.IH [of "diffuseTo w h x y dir (Some er, Some eg, Some eb) wt buf"] st
  show ?case by (simp add: distributeError_def)
qed

lemma frame_target:
  assumes "inFrameAt w h x y dir dx dy"
  obtains tx ty where "int tx = int x + dx * dir" "int ty = int y + dy" "tx < w" "ty < h"
    "nat (((int y + dy) * int w + (int x + dx * dir)) * 3) = (ty * w + tx) * 3"
proof -
  define tx where "tx = nat (int x + dx * dir)"
  define ty where "ty = nat (int y + dy)"
  have a: "int tx = int x + dx * dir" "int ty = int y + dy" "tx < w" "ty < h"
    using assms by (auto simp add: inFrameAt_def tx_def ty_def)
  have "((int y + dy) * int w + (int x + dx * dir)) * 3 = int ((ty * w + tx) * 3)"
    unfolding a(1) [symmetric] a(2) [symmetric] by simp
  then have "nat (((int y + dy) * int w + (int x + dx * dir)) * 3) = (ty * w + tx) * 3"
    by (simp only: nat_int)
  with a show ?thesis using that by blast
qed

lemma pixel_inj:
  fixes w :: nat
  assumes "tx < w" "nx < w" "ty * w + tx = ny * w + nx"
  shows "tx = nx \<and> ty = ny"
proof -
  have "tx = (ty * w + tx) mod w" using assms(1) by simp
  also have "\<dots> = (ny * w + nx) mod w" by (simp only: assms(3))
  also have "\<dots> = nx" using assms(2) by simp
  finally have x: "tx = nx" .
  have "ty = (ty * w + tx) div w" using assms(1) by simp
  also have "\<dots> = (ny * w + nx) div w" by (simp only: assms(3))
  also have "\<dots> = ny" using assms(2) by simp
  finally have "ty = ny" .
  with x show ?thesis by simp
qed

lemma triple_index:
  fixes P Q c :: nat
  assumes "c < 3"
  shows "(P * 3 \<le> Q * 3 + c \<and> Q * 3 + c < P * 3 + 3) \<longleftrightarrow> P = Q"
  using assms by arith

lemma contrib_at_pixel:
  assumes fr: "inFrameAt w h x y dir dx dy" and nx: "nx < w" and c: "c < 3"
  shows "contrib w h x y dir es (dx, dy, f) ((ny * w + nx) * 3 + c)
           = (if int nx = int x + dx * dir \<and> int ny = int y + dy then es ! c * f else 0)"
proof -
  from fr obtain tx ty where t: "int tx = int x + dx * dir" "int ty = int y + dy" "tx < w" "ty < h"
    and T: "nat (((int y + dy) * int w + (int x + dx * dir)) * 3) = (ty * w + tx) * 3"
    by (rule frame_target)
  have c2: "contrib w h x y dir es (dx, dy, f) k
       = (if (ty * w + tx) * 3 \<le> k \<and> k < (ty * w + tx) * 3 + 3 then es ! (k - (ty * w + tx) * 3) * f else 0)" for k
    by (simp only: contrib_def prod.case fr T simp_thms)
  have eq: "((ty * w + tx) * 3 \<le> (ny * w + nx) * 3 + c \<and> (ny * w + nx) * 3 + c < (ty * w + tx) * 3 + 3)
            \<longleftrightarrow> ty * w + tx = ny * w + nx"
    by (rule triple_index [OF c])
  have iff: "ty * w + tx = ny * w + nx \<longleftrightarrow> (int nx = int x + dx * dir \<and> int ny = int y + dy)"
  proof
    assume "ty * w + tx = ny * w + nx"
    from pixel_inj [OF t(3) nx this] show "int nx = int x + dx * dir \<and> int ny = int y + dy"
      using t by simp
  next
    assume "int nx = int x + dx * dir \<and> int ny = int y + dy"
    then have "int nx = int tx" "int ny = int ty" using t by simp_all
    then show "ty * w + tx = ny * w + nx" by simp
  qed
  show ?thesis
  proof (cases "ty * w + tx = ny * w + nx")
    case True
    then show ?thesis using iff eq by (simp add: c2)
  next
    case False
    then show ?thesis using iff eq by (simp only: c2 if_False)
  qed
qed

lemma contrib_total:
  assumes c: "c < 3"
  shows "(\<Sum>p<w * h. contrib w h x y dir es (dx, dy, f) (p * 3 + c))
           = (if inFrameAt w h x y dir dx dy then es ! c * f else 0)"
proof (cases "inFrameAt w h x y dir dx dy")
  case False
  then show ?thesis by (simp add: contrib_def)
next
  case True
  from True obtain tx ty where t: "tx < w" "ty < h"
    and T: "nat (((int y + dy) * int w + (int x + dx * dir)) * 3) = (ty * w + tx) * 3"
    by (rule frame_target)
  have c2: "contrib w h x y dir es (dx, dy, f) k
       = (if (ty * w + tx) * 3 \<le> k \<and> k < (ty * w + tx) * 3 + 3 then es ! (k - (ty * w + tx) * 3) * f else 0)" for k
    by (simp only: contrib_def prod.case True T simp_thms)
  have P: "ty * w + tx < w * h"
  proof -
    have "ty + 1 \<le> h" using t by simp
    then have "(ty + 1) * w \<le> h * w" by (rule mult_le_mono1)
    then show ?thesis using t(1) by (simp add: algebra_simps)
  qed
  have each: "contrib w h x y dir es (dx, dy, f) (p * 3 + c) = (if ty * w + tx = p then es ! c * f else 0)" for p
  proof (cases "ty * w + tx = p")
    case True
    then show ?thesis using c by (simp add: c2)
  next
    case False
    then have "\<not> ((ty * w + tx) * 3 \<le> p * 3 + c \<and> p * 3 + c < (ty * w + tx) * 3 + 3)"
      using triple_index [OF c, of "ty * w + tx" p] by simp
    then show ?thesis using False by (simp only: c2 if_False)
  qed
  have "(\<Sum>p<w * h. contrib w h x y dir es (dx, dy, f) (p * 3 + c))
          = (\<Sum>p\<in>{..<w * h}. if ty * w + tx = p then es ! c * f else 0)"
    by (simp only: each)
  also have "\<dots> = es ! c * f" using P by (simp add: sum.delta)
  finally show ?thesis using True by simp
qed

lemma sum_sum_list_swap:
  fixes g :: "'a \<Rightarrow> nat \<Rightarrow> real"
  shows "(\<Sum>p<n. \<Sum>wt\<leftarrow>wts. g wt p) = (\<Sum>wt\<leftarrow>wts. \<Sum>p<n. g wt p)"
  by (induction wts) (simp_all add: sum.distrib)

lemma totalGain_distributeError:
  assumes len: "length buf = w * h * 3" and some: "None \<notin> set buf" and c: "c < 3"
  shows "totalGain w h buf (distributeError w h x y dir (Some er, Some eg, Some eb) wts buf) c
           = (\<Sum>(dx, dy, f)\<leftarrow>wts. if inFrameAt w h x y dir dx dy then [er, eg, eb] ! c * f else 0)"
proof -
  note g = distributeError_gain [OF len some, of x y dir er eg eb wts]
  have "gain buf (distributeError w h x y dir (Some er, Some eg, Some eb) wts buf) (p * 3 + c)
          = (\<Sum>wt\<leftarrow>wts. contrib w h x y dir [er, eg, eb] wt (p * 3 + c))" if "p < w * h" for p
  proof -
    have "p * 3 + c < w * h * 3" using that c by linarith
    with g show ?thesis by (simp add: gain_def)
  qed
  then have "totalGain w h buf (distributeError w h x y dir (Some er, Some eg, Some eb) wts buf) c
          = (\<Sum>p<w * h. \<Sum>wt\<leftarrow>wts. contrib w h x y dir [er, eg, eb] wt (p * 3 + c))"
    by (simp add: totalGain_def)
  also have "\<dots> = (\<Sum>wt\<leftarrow>wts. \<Sum>p<w * h. contrib w h x y dir [er, eg, eb] wt (p * 3 + c))"
    by (rule sum_sum_list_swap)
  also have "\<dots> = (\<Sum>(dx, dy, f)\<leftarrow>wts. if inFrameAt w h x y dir dx dy then [er, eg, eb] ! c * f else 0)"
    by (rule arg_cong [where f = sum_list], rule map_cong [OF refl])
       (use contrib_total [OF c] in auto)
  finally show ?thesis .
qed

lemma interior_inFrame:
  assumes "dir = 1 \<or> dir = - 1" "2 \<le> x" "x + 2 < w" "y + 2 < h"
  shows "inFrameAt w h x y dir dir 0" "inFrameAt w h x y dir 1 0" "inFrameAt w h x y dir 2 0"
    "inFrameAt w h x y dir (- 1) 1" "inFrameAt w h x y dir 0 1" "inFrameAt w h x y dir 1 1"
    "inFrameAt w h x y dir 0 2"
  using assms by (auto simp add: inFrameAt_def)




section \<open>Block averaging\<close>

lemma pixel_index_bound:
  fixes x y w h :: nat
  assumes "x < w" "y < h"
  shows "(y * w + x) * 4 + 3 < 4 * w * h"
proof -
  have "y + 1 \<le> h" using assms by simp
  then have "(y + 1) * w \<le> h * w" by (rule mult_le_mono1)
  then have "y * w + x < w * h" using assms(1) by (simp add: algebra_simps)
  moreover have "\<And>P N :: nat. P < N \<Longrightarrow> P * 4 + 3 < 4 * N" by arith
  ultimately show ?thesis by (metis mult.assoc)
qed

lemma blockStep_accPixel:
  assumes "wf_image img" "startX + xx < img_width img" "startY + yy < img_height img"
  shows "blockStep (img_data img) (img_width img) startX startY yy xx acc
           = accPixel (pixelAt img (startX + xx) (startY + yy)) acc"
proof -
  have "((startY + yy) * img_width img + (startX + xx)) * 4 + 3 < length (img_data img)"
    using pixel_index_bound [OF assms(2) assms(3)] assms(1) by (simp add: wf_image_def)
  then have r: "(startY + yy) * img_width img * 4 + (startX + xx) * 4 + 3 < length (img_data img)"
    by (simp add: algebra_simps)
  obtain rS gS bS aS cnt tpc where acc: "acc = (rS, gS, bS, aS, cnt, tpc)" by (cases acc) auto
  show ?thesis using r
    by (simp add: blockStep_def accPixel_def pixelAt_def u8_nat_def acc Let_def algebra_simps)
qed

lemma fold_accPixel:
  "fold accPixel ps (rS, gS, bS, aS, cnt, tpc)
     = (rS + sum_list (map (\<lambda>(r, g, b, a). r) (included ps)),
        gS + sum_list (map (\<lambda>(r, g, b, a). g) (included ps)),
        bS + sum_list (map (\<lambda>(r, g, b, a). b) (included ps)),
        aS + sum_list (map (\<lambda>(r, g, b, a). a) (included ps)),
        cnt + length (included ps),
        tpc + (length ps - length (included ps)))"
proof (induction ps arbitrary: rS gS bS aS cnt tpc)
  case Nil
  then show ?case by (simp add: included_def)
next
  case (Cons p ps)
  obtain r g b a where p: "p = (r, g, b, a)" by (cases p) auto
  have le: "length (included ps) \<le> length ps" by (simp add: included_def)
  show ?case
  proof (cases "128 \<le> a")
    case True
    have s: "accPixel p (rS, gS, bS, aS, cnt, tpc) = (rS + r, gS + g, bS + b, aS + a, cnt + 1, tpc)"
      using True by (simp add: accPixel_def p)
    have inc: "included (p # ps) = p # included ps"
      using True by (simp add: included_def alphaOf_def p)
    show ?thesis by (simp add: s Cons.IH inc) (simp add: p)
  next
    case False
    have s: "accPixel p (rS, gS, bS, aS, cnt, tpc) = (rS, gS, bS, aS, cnt, tpc + 1)"
      using False by (simp add: accPixel_def p)
    have inc: "included (p # ps) = included ps"
      using False by (simp add: included_def alphaOf_def p)
    show ?thesis using le by (simp add: s Cons.IH inc)
  qed
qed

lemma fold_nested_concat:
  assumes "\<And>yy xx acc. yy \<in> set ys \<Longrightarrow> xx \<in> set xs \<Longrightarrow> f yy xx acc = g (h yy xx) acc"
  shows "fold (\<lambda>yy. fold (f yy) xs) ys acc = fold g (concat (map (\<lambda>yy. map (h yy) xs) ys)) acc"
  using assms
proof (induction ys arbitrary: acc)
  case Nil
  then show ?case by simp
next
  case (Cons y ys)
  have row: "fold (f y) xs a = fold g (map (h y) xs) a" for a
    by (simp only: fold_map) (rule fold_cong, simp_all add: Cons.prems fun_eq_iff)
  show ?case by (simp add: row Cons.IH Cons.prems)
qed

lemma block_fold:
  assumes wf: "wf_image img" and x: "dX + bx * sX + sX \<le> img_width img" and y: "dY + by * sY + sY \<le> img_height img"
  shows "fold (\<lambda>yy. fold (blockStep (img_data img) (img_width img) (dX + bx * sX) (dY + by * sY) yy) [0..<sX]) [0..<sY]
              (0, 0, 0, 0, 0, tpc0)
         = (sum_list (map (\<lambda>(r, g, b, a). r) (included (blockOf img sX sY dX dY bx by))),
            sum_list (map (\<lambda>(r, g, b, a). g) (included (blockOf img sX sY dX dY bx by))),
            sum_list (map (\<lambda>(r, g, b, a). b) (included (blockOf img sX sY dX dY bx by))),
            sum_list (map (\<lambda>(r, g, b, a). a) (included (blockOf img sX sY dX dY bx by))),
            length (included (blockOf img sX sY dX dY bx by)),
            tpc0 + (length (blockOf img sX sY dX dY bx by) - length (included (blockOf img sX sY dX dY bx by))))"
proof -
  have "fold (\<lambda>yy. fold (blockStep (img_data img) (img_width img) (dX + bx * sX) (dY + by * sY) yy) [0..<sX]) [0..<sY]
              (0, 0, 0, 0, 0, tpc0)
        = fold accPixel (blockOf img sX sY dX dY bx by) (0, 0, 0, 0, 0, tpc0)"
    unfolding blockOf_def
  proof (rule fold_nested_concat)
    fix yy xx acc assume "yy \<in> set [0..<sY]" "xx \<in> set [0..<sX]"
    then have "dX + bx * sX + xx < img_width img" "dY + by * sY + yy < img_height img"
      using x y by simp_all
    then show "blockStep (img_data img) (img_width img) (dX + bx * sX) (dY + by * sY) yy xx acc
           = accPixel (pixelAt img (dX + bx * sX + xx) (dY + by * sY + yy)) acc"
      by (rule blockStep_accPixel [OF wf])
  qed
  then show ?thesis by (simp add: fold_accPixel)
qed

lemma fold_rows_flat:
  assumes "\<And>y x s. y < m \<Longrightarrow> x < w \<Longrightarrow> f y x s = g (y * w + x) s"
  shows "fold (\<lambda>y. fold (f y) [0..<w]) [0..<m] s = fold g [0..<m * w] s"
  using assms
proof (induction m arbitrary: s)
  case 0
  then show ?case by simp
next
  case (Suc m)
  have row: "fold (f m) [0..<w] t = fold g [m * w..<m * w + w] t" for t
  proof -
    have "fold g [m * w..<m * w + w] t = fold (\<lambda>x. g (m * w + x)) [0..<w] t"
      by (simp only: upt_add_eq_map [of "m * w" w] fold_map comp_def)
    also have "\<dots> = fold (f m) [0..<w] t"
      by (rule fold_cong) (simp_all add: Suc.prems fun_eq_iff)
    finally show ?thesis by simp
  qed
  have rng: "[0..<Suc m * w] = [0..<m * w] @ [m * w..<m * w + w]"
    by (metis add.commute mult_Suc upt_add_eq_append zero_le)
  have ih: "fold (\<lambda>y. fold (f y) [0..<w]) [0..<m] s = fold g [0..<m * w] s"
    by (rule Suc.IH) (simp add: Suc.prems)
  have "fold (\<lambda>y. fold (f y) [0..<w]) [0..<Suc m] s
          = fold (f m) [0..<w] (fold (\<lambda>y. fold (f y) [0..<w]) [0..<m] s)"
    by simp
  also have "\<dots> = fold g [m * w..<m * w + w] (fold g [0..<m * w] s)"
    by (simp only: ih row)
  also have "\<dots> = fold g [0..<Suc m * w] s"
    by (simp only: rng fold_append comp_def)
  finally show ?case .
qed

lemma flat_write:
  assumes step: "\<And>p out t. p < n \<Longrightarrow>
            g p (out, t) = (out[p * 4 := q0 p, p * 4 + 1 := q1 p, p * 4 + 2 := q2 p, p * 4 + 3 := q3 p], t + e p)"
    and len: "n * 4 \<le> length out"
  shows "length (fst (fold g [0..<n] (out, t))) = length out
       \<and> (\<forall>p<n. fst (fold g [0..<n] (out, t)) ! (p * 4) = q0 p
               \<and> fst (fold g [0..<n] (out, t)) ! (p * 4 + 1) = q1 p
               \<and> fst (fold g [0..<n] (out, t)) ! (p * 4 + 2) = q2 p
               \<and> fst (fold g [0..<n] (out, t)) ! (p * 4 + 3) = q3 p)"
  using assms
proof (induction n)
  case 0
  then show ?case by simp
next
  case (Suc n)
  obtain out' t' where f: "fold g [0..<n] (out, t) = (out', t')" by (cases "fold g [0..<n] (out, t)") auto
  have ih: "length out' = length out"
      "\<And>p. p < n \<Longrightarrow> out' ! (p * 4) = q0 p \<and> out' ! (p * 4 + 1) = q1 p \<and> out' ! (p * 4 + 2) = q2 p \<and> out' ! (p * 4 + 3) = q3 p"
    using Suc.IH Suc.prems f by simp_all
  have s: "fold g [0..<Suc n] (out, t)
        = (out'[n * 4 := q0 n, n * 4 + 1 := q1 n, n * 4 + 2 := q2 n, n * 4 + 3 := q3 n], t' + e n)"
    by (simp add: f Suc.prems(1))
  have l: "n * 4 + 3 < length out'" using Suc.prems(2) ih(1) by simp
  show ?case
  proof (intro conjI allI impI)
    show "length (fst (fold g [0..<Suc n] (out, t))) = length out" unfolding s by (simp add: ih(1))
  next
    fix p assume "p < Suc n"
    then consider "p < n" | "p = n" by linarith
    then have "out'[n * 4 := q0 n, n * 4 + 1 := q1 n, n * 4 + 2 := q2 n, n * 4 + 3 := q3 n] ! (p * 4) = q0 p
        \<and> out'[n * 4 := q0 n, n * 4 + 1 := q1 n, n * 4 + 2 := q2 n, n * 4 + 3 := q3 n] ! (p * 4 + 1) = q1 p
        \<and> out'[n * 4 := q0 n, n * 4 + 1 := q1 n, n * 4 + 2 := q2 n, n * 4 + 3 := q3 n] ! (p * 4 + 2) = q2 p
        \<and> out'[n * 4 := q0 n, n * 4 + 1 := q1 n, n * 4 + 2 := q2 n, n * 4 + 3 := q3 n] ! (p * 4 + 3) = q3 p"
    proof cases
      case 1
      then show ?thesis using ih(2) [OF 1] by (simp add: nth_list_update)
    next
      case 2
      then show ?thesis using l by (simp add: nth_list_update)
    qed
    then show "fst (fold g [0..<Suc n] (out, t)) ! (p * 4) = q0 p"
      "fst (fold g [0..<Suc n] (out, t)) ! (p * 4 + 1) = q1 p"
      "fst (fold g [0..<Suc n] (out, t)) ! (p * 4 + 2) = q2 p"
      "fst (fold g [0..<Suc n] (out, t)) ! (p * 4 + 3) = q3 p"
      unfolding s by simp_all
  qed
qed

lemma Math_round_mean:
  assumes ne: "xs \<noteq> []" and le: "\<And>x. x \<in> set xs \<Longrightarrow> x \<le> (255 :: nat)"
  shows "to_u8c (Some (real_of_int (Math_round (real (sum_list xs) / real (length xs))))) = of_nat (roundedMean xs)"
    and "roundedMean xs \<le> 255"
proof -
  define m where "m = real (sum_list xs) / real (length xs)"
  have "sum_list xs \<le> 255 * length xs" using le
    by (induction xs) (simp_all add: add_mono)
  then have "real (sum_list xs) \<le> 255 * real (length xs)"
    by (metis of_nat_le_iff of_nat_mult of_nat_numeral)
  moreover have pos: "0 < real (length xs)" using ne by simp
  ultimately have up: "m \<le> 255" unfolding m_def by (simp add: pos_divide_le_eq)
  have lo: "0 \<le> m" unfolding m_def by simp
  have r: "Math_round m = round m" by (simp add: Math_round_def round_def)
  have "round (0 :: real) \<le> round m" using lo by (rule round_mono)
  then have r0: "0 \<le> round m" by simp
  have "round m \<le> round (255 :: real)" using up by (rule round_mono)
  then have r1: "round m \<le> 255" by simp
  show "roundedMean xs \<le> 255" using r0 r1 by (simp add: roundedMean_def m_def [symmetric])
  have "to_u8c (Some (real_of_int (round m))) = word_of_int (round m)"
    using r0 r1 by (simp add: to_u8c_def)
  also have "\<dots> = of_nat (nat (round m))" using r0 by simp
  finally show "to_u8c (Some (real_of_int (Math_round (real (sum_list xs) / real (length xs))))) = of_nat (roundedMean xs)"
    by (simp add: r roundedMean_def m_def [symmetric])
qed

lemma unat_of_nat_byte: "n \<le> 255 \<Longrightarrow> unat (of_nat n :: byte) = n"
  by (simp add: unat_of_nat)

lemma pixelAt_bounds:
  "pixelAt img x y = (r, g, b, a) \<Longrightarrow> r \<le> 255 \<and> g \<le> 255 \<and> b \<le> 255 \<and> a \<le> 255"
proof -
  have "unat v \<le> 255" for v :: byte
    using unsigned_less [of v, where 'a = nat] by simp
  then show "pixelAt img x y = (r, g, b, a) \<Longrightarrow> r \<le> 255 \<and> g \<le> 255 \<and> b \<le> 255 \<and> a \<le> 255"
    by (auto simp add: pixelAt_def Let_def)
qed

lemma blockOf_bounds:
  assumes "(r, g, b, a) \<in> set (included (blockOf img sX sY dX dY bx by))"
  shows "r \<le> 255 \<and> g \<le> 255 \<and> b \<le> 255 \<and> a \<le> 255 \<and> 128 \<le> a"
proof -
  from assms have a: "128 \<le> a" and "(r, g, b, a) \<in> set (blockOf img sX sY dX dY bx by)"
    by (simp_all add: included_def alphaOf_def)
  then obtain x y where "pixelAt img x y = (r, g, b, a)"
    by (auto simp add: blockOf_def)
  from pixelAt_bounds [OF this] a show ?thesis by simp
qed

lemma blockPixel_eq:
  assumes wf: "wf_image img" and x: "dX + bx * sX + sX \<le> img_width img" and y: "dY + by * sY + sY \<le> img_height img"
  shows "blockPixel (img_data img) (img_width img) sX sY dX dY W by bx (out, t)
        = (out[(by * W + bx) * 4 := of_nat (fst (spec_blockAverage (blockOf img sX sY dX dY bx by))),
               (by * W + bx) * 4 + 1 := of_nat (fst (snd (spec_blockAverage (blockOf img sX sY dX dY bx by)))),
               (by * W + bx) * 4 + 2 := of_nat (fst (snd (snd (spec_blockAverage (blockOf img sX sY dX dY bx by))))),
               (by * W + bx) * 4 + 3 := of_nat (snd (snd (snd (spec_blockAverage (blockOf img sX sY dX dY bx by)))))],
           t + (length (blockOf img sX sY dX dY bx by) - length (included (blockOf img sX sY dX dY bx by))))"
proof -
  define blk where "blk = blockOf img sX sY dX dY bx by"
  note bf = block_fold [OF wf x y, of t, folded blk_def]
  show ?thesis
  proof (cases "included blk = []")
    case True
    then show ?thesis
      unfolding blk_def [symmetric]
      by (simp add: blockPixel_def Let_def bf spec_blockAverage_def)
  next
    case False
    have b: "r \<le> 255 \<and> g \<le> 255 \<and> b \<le> 255 \<and> a \<le> 255" if "(r, g, b, a) \<in> set (included blk)" for r g b a
      using blockOf_bounds that unfolding blk_def by blast
    have r: "to_u8c (Some (real_of_int (Math_round (real (sum_list (map (\<lambda>(r, g, b, a). r) (included blk)))
                  / real (length (included blk))))))
              = of_nat (roundedMean (map (\<lambda>(r, g, b, a). r) (included blk)))"
      using Math_round_mean(1) [of "map (\<lambda>(r, g, b, a). r) (included blk)"] False b by fastforce
    have g: "to_u8c (Some (real_of_int (Math_round (real (sum_list (map (\<lambda>(r, g, b, a). g) (included blk)))
                  / real (length (included blk))))))
              = of_nat (roundedMean (map (\<lambda>(r, g, b, a). g) (included blk)))"
      using Math_round_mean(1) [of "map (\<lambda>(r, g, b, a). g) (included blk)"] False b by fastforce
    have bb: "to_u8c (Some (real_of_int (Math_round (real (sum_list (map (\<lambda>(r, g, b, a). b) (included blk)))
                  / real (length (included blk))))))
              = of_nat (roundedMean (map (\<lambda>(r, g, b, a). b) (included blk)))"
      using Math_round_mean(1) [of "map (\<lambda>(r, g, b, a). b) (included blk)"] False b by fastforce
    have a: "to_u8c (Some (real_of_int (Math_round (real (sum_list (map (\<lambda>(r, g, b, a). a) (included blk)))
                  / real (length (included blk))))))
              = of_nat (roundedMean (map (\<lambda>(r, g, b, a). a) (included blk)))"
      using Math_round_mean(1) [of "map (\<lambda>(r, g, b, a). a) (included blk)"] False b by fastforce
    show ?thesis
      unfolding blk_def [symmetric] using False
      by (simp add: blockPixel_def Let_def bf spec_blockAverage_def r g bb a)
  qed
qed

lemma spec_blockAverage_bounds:
  assumes "spec_blockAverage (blockOf img sX sY dX dY bx by) = (r, g, b, a)"
  shows "r \<le> 255 \<and> g \<le> 255 \<and> b \<le> 255 \<and> a \<le> 255"
proof (cases "included (blockOf img sX sY dX dY bx by) = []")
  case True
  then show ?thesis using assms by (simp add: spec_blockAverage_def)
next
  case False
  define inc where "inc = included (blockOf img sX sY dX dY bx by)"
  have b: "r \<le> 255 \<and> g \<le> 255 \<and> b \<le> 255 \<and> a \<le> 255" if "(r, g, b, a) \<in> set inc" for r g b a
    using blockOf_bounds that unfolding inc_def by blast
  have "roundedMean (map (\<lambda>(r, g, b, a). r) inc) \<le> 255"
    using Math_round_mean(2) [of "map (\<lambda>(r, g, b, a). r) inc"] False b unfolding inc_def [symmetric] by fastforce
  moreover have "roundedMean (map (\<lambda>(r, g, b, a). g) inc) \<le> 255"
    using Math_round_mean(2) [of "map (\<lambda>(r, g, b, a). g) inc"] False b unfolding inc_def [symmetric] by fastforce
  moreover have "roundedMean (map (\<lambda>(r, g, b, a). b) inc) \<le> 255"
    using Math_round_mean(2) [of "map (\<lambda>(r, g, b, a). b) inc"] False b unfolding inc_def [symmetric] by fastforce
  moreover have "roundedMean (map (\<lambda>(r, g, b, a). a) inc) \<le> 255"
    using Math_round_mean(2) [of "map (\<lambda>(r, g, b, a). a) inc"] False b unfolding inc_def [symmetric] by fastforce
  ultimately show ?thesis using assms False
    unfolding inc_def [symmetric] by (auto simp add: spec_blockAverage_def Let_def inc_def [symmetric])
qed

lemma spec_blockAverage_transparent:
  "spec_blockAverage (blockOf img sX sY dX dY bx by) = (0, 0, 0, 0)
     \<longleftrightarrow> included (blockOf img sX sY dX dY bx by) = []"
proof (cases "included (blockOf img sX sY dX dY bx by) = []")
  case True
  then show ?thesis by (simp add: spec_blockAverage_def)
next
  case False
  define xs where "xs = map (\<lambda>(r, g, b, a). a) (included (blockOf img sX sY dX dY bx by))"
  have ne: "xs \<noteq> []" using False by (simp add: xs_def)
  have ge: "128 \<le> x" if "x \<in> set xs" for x
    using that blockOf_bounds unfolding xs_def by fastforce
  have "128 * length xs \<le> sum_list xs" using ge
    by (induction xs) (simp_all add: add_mono)
  then have "128 * real (length xs) \<le> real (sum_list xs)"
    by (metis of_nat_le_iff of_nat_mult of_nat_numeral)
  moreover have "0 < real (length xs)" using ne by simp
  ultimately have "128 \<le> real (sum_list xs) / real (length xs)"
    by (simp add: pos_le_divide_eq)
  then have "round (128 :: real) \<le> round (real (sum_list xs) / real (length xs))"
    by (rule round_mono)
  then have "128 \<le> roundedMean xs" by (simp add: roundedMean_def)
  then have "roundedMean xs \<noteq> 0" by simp
  then show ?thesis using False by (simp add: spec_blockAverage_def Let_def xs_def [symmetric])
qed

lemma block_in_range:
  fixes w dX sX bx :: nat
  assumes "bx < (w - dX) div sX" "dX \<le> w"
  shows "dX + bx * sX + sX \<le> w"
proof -
  have "bx + 1 \<le> (w - dX) div sX" using assms(1) by simp
  then have "(bx + 1) * sX \<le> (w - dX) div sX * sX" by (rule mult_le_mono1)
  also have "\<dots> \<le> w - dX" by simp
  finally have "bx * sX + sX \<le> w - dX" by (simp add: algebra_simps)
  then show ?thesis using assms(2) by linarith
qed

lemma rebuildBase_pixels:
  assumes wf: "wf_image img" and sX: "0 < sX" and sY: "0 < sY"
    and dX: "dX + sX \<le> img_width img" and dY: "dY + sY \<le> img_height img"
  shows "\<exists>res. rebuildBase img sX sY dX dY = Inr res
      \<and> img_width (baseImageData res) = (img_width img - dX) div sX
      \<and> img_height (baseImageData res) = (img_height img - dY) div sY
      \<and> (\<forall>bx<(img_width img - dX) div sX. \<forall>by<(img_height img - dY) div sY.
            pixelAt (baseImageData res) bx by = spec_blockAverage (blockOf img sX sY dX dY bx by))"
proof -
  define w where "w = img_width img"
  define h where "h = img_height img"
  define d where "d = img_data img"
  define W where "W = (w - dX) div sX"
  define H where "H = (h - dY) div sY"
  define avg where "avg = (\<lambda>p. spec_blockAverage (blockOf img sX sY dX dY (p mod W) (p div W)))"
  define g where "g = (\<lambda>p. blockPixel d w sX sY dX dY W (p div W) (p mod W))"
  define F where "F = fold (\<lambda>by. fold (blockPixel d w sX sY dX dY W by) [0..<W]) [0..<H] (replicate (4 * W * H) 0, 0)"
  have dXw: "dX \<le> w" and dYh: "dY \<le> h" using dX dY by (simp_all add: w_def h_def)
  have Wpos: "0 < W" using dX sX unfolding W_def w_def by (simp add: div_greater_zero_iff)
  have Hpos: "0 < H" using dY sY unfolding H_def h_def by (simp add: div_greater_zero_iff)
  have iW: "(int w - int dX) div int sX = int W"
    using dXw by (simp add: W_def of_nat_diff zdiv_int)
  have iH: "(int h - int dY) div int sY = int H"
    using dYh by (simp add: H_def of_nat_diff zdiv_int)
  have rb: "rebuildBase img sX sY dX dY
        = Inr \<lparr> baseImageData = \<lparr> img_width = W, img_height = H, img_data = fst F \<rparr>,
                crop = \<lparr> crop_x0 = dX, crop_y0 = dY, wCrop = W * sX, hCrop = H * sY, wOut = W, hOut = H \<rparr>,
                transparentPixelCount = snd F \<rparr>"
    using sX sY Wpos Hpos
    by (simp add: rebuildBase_def Let_def w_def [symmetric] h_def [symmetric] d_def [symmetric] iW iH
          blankImageData_def F_def [symmetric] case_prod_beta)
  have flat: "F = fold g [0..<H * W] (replicate (4 * W * H) 0, 0)"
    unfolding F_def by (rule fold_rows_flat) (simp add: g_def)
  have step: "g p (out, t) = (out[p * 4 := of_nat (fst (avg p)), p * 4 + 1 := of_nat (fst (snd (avg p))),
                                  p * 4 + 2 := of_nat (fst (snd (snd (avg p)))),
                                  p * 4 + 3 := of_nat (snd (snd (snd (avg p))))],
                              t + (length (blockOf img sX sY dX dY (p mod W) (p div W))
                                    - length (included (blockOf img sX sY dX dY (p mod W) (p div W)))))"
    if "p < H * W" for p out t
  proof -
    have "p mod W < W" using Wpos by simp
    then have x: "dX + (p mod W) * sX + sX \<le> img_width img"
      unfolding W_def w_def [symmetric] using dXw by (rule block_in_range)
    have "p div W < H" using that by (rule less_mult_imp_div_less)
    then have y: "dY + (p div W) * sY + sY \<le> img_height img"
      unfolding H_def h_def [symmetric] using dYh by (rule block_in_range)
    have "p div W * W + p mod W = p" by simp
    with blockPixel_eq [OF wf x y, of W out t] show ?thesis
      by (simp add: g_def d_def w_def avg_def)
  qed
  have "H * W * 4 \<le> length (replicate (4 * W * H) (0 :: byte))" by simp
  from flat_write [of "H * W" g _ _ _ _ _ "replicate (4 * W * H) 0" 0, OF step this]
  have ent: "\<And>p. p < H * W \<Longrightarrow> fst F ! (p * 4) = of_nat (fst (avg p))
               \<and> fst F ! (p * 4 + 1) = of_nat (fst (snd (avg p)))
               \<and> fst F ! (p * 4 + 2) = of_nat (fst (snd (snd (avg p))))
               \<and> fst F ! (p * 4 + 3) = of_nat (snd (snd (snd (avg p))))"
    unfolding flat by blast
  have px: "pixelAt \<lparr> img_width = W, img_height = H, img_data = fst F \<rparr> bx by
              = spec_blockAverage (blockOf img sX sY dX dY bx by)"
    if bxW: "bx < W" and byH: "by < H" for bx "by"
  proof -
    have "by + 1 \<le> H" using byH by simp
    then have "(by + 1) * W \<le> H * W" by (rule mult_le_mono1)
    then have p: "by * W + bx < H * W" using bxW by (simp add: algebra_simps)
    have a: "avg (by * W + bx) = spec_blockAverage (blockOf img sX sY dX dY bx by)"
      using bxW by (simp add: avg_def)
    obtain r g b a where q: "spec_blockAverage (blockOf img sX sY dX dY bx by) = (r, g, b, a)"
      by (metis prod_cases4)
    from spec_blockAverage_bounds [OF q] have bd: "r \<le> 255" "g \<le> 255" "b \<le> 255" "a \<le> 255" by simp_all
    show ?thesis
      using ent [OF p] bd by (simp add: pixelAt_def Let_def a q unat_of_nat_byte)
  qed
  show ?thesis
    unfolding rb w_def [symmetric] h_def [symmetric] W_def [symmetric] H_def [symmetric]
    using px by simp
qed

text \<open>
  Claim C4. For an image, scales \<open>sX, sY > 0\<close> and offsets \<open>dX, dY\<close> such that at least
  one block fits, \<^verbatim>\<open>rebuildBase\<close> returns an image of \<open>(w - dX) div sX\<close> by
  \<open>(h - dY) div sY\<close> pixels. Each of its pixels is the average of its block in the sense
  of the specification: the rounded arithmetic mean, channel by channel (alpha included),
  over only the pixels of the block whose alpha is at least 128. It is \<open>(0,0,0,0)\<close>
  exactly when every pixel of the block has alpha below 128.
\<close>

theorem rebuildBase_alpha_aware_average:
  assumes "wf_image img" and "0 < sX" and "0 < sY"
    and "dX + sX \<le> img_width img" and "dY + sY \<le> img_height img"
  shows "\<exists>res. rebuildBase img sX sY dX dY = Inr res
      \<and> img_width (baseImageData res) = (img_width img - dX) div sX
      \<and> img_height (baseImageData res) = (img_height img - dY) div sY
      \<and> (\<forall>bx<(img_width img - dX) div sX. \<forall>by<(img_height img - dY) div sY.
            pixelAt (baseImageData res) bx by = spec_blockAverage (blockOf img sX sY dX dY bx by)
            \<and> (pixelAt (baseImageData res) bx by = (0, 0, 0, 0)
                 \<longleftrightarrow> (\<forall>p\<in>set (blockOf img sX sY dX dY bx by). alphaOf p < 128)))"
proof -
  from rebuildBase_pixels [OF assms] obtain res where res: "rebuildBase img sX sY dX dY = Inr res"
      "img_width (baseImageData res) = (img_width img - dX) div sX"
      "img_height (baseImageData res) = (img_height img - dY) div sY"
      "\<And>bx by. bx < (img_width img - dX) div sX \<Longrightarrow> by < (img_height img - dY) div sY \<Longrightarrow>
            pixelAt (baseImageData res) bx by = spec_blockAverage (blockOf img sX sY dX dY bx by)"
    by blast
  have tr: "(spec_blockAverage (blockOf img sX sY dX dY bx by) = (0, 0, 0, 0))
             \<longleftrightarrow> (\<forall>p\<in>set (blockOf img sX sY dX dY bx by). alphaOf p < 128)" for bx "by"
    by (simp add: spec_blockAverage_transparent included_def filter_empty_conv not_le)
  show ?thesis using res tr by auto
qed

theorem rebuildBase_alpha_aware_average_witness:
  "wf_image ex_rgba
   \<and> (\<exists>res. rebuildBase ex_rgba 2 2 0 0 = Inr res
         \<and> img_width (baseImageData res) = 2 \<and> img_height (baseImageData res) = 1
         \<and> pixelAt (baseImageData res) 0 0 = (15, 30, 45, 228)
         \<and> pixelAt (baseImageData res) 1 0 = (0, 0, 0, 0))"
proof -
  have wf: "wf_image ex_rgba" by (simp add: wf_image_def ex_rgba_def)
  have h: "(0 :: nat) < 2" "(0 :: nat) + 2 \<le> img_width ex_rgba" "(0 :: nat) + 2 \<le> img_height ex_rgba"
    by (simp_all add: ex_rgba_def)
  have e0: "spec_blockAverage (blockOf ex_rgba 2 2 0 0 0 0) = (15, 30, 45, 228)"
    by (simp add: spec_blockAverage_def blockOf_def pixelAt_def ex_rgba_def included_def alphaOf_def
          roundedMean_def Let_def upt_conv_Cons round_def)
  have e1: "spec_blockAverage (blockOf ex_rgba 2 2 0 0 1 0) = (0, 0, 0, 0)"
    by (simp add: spec_blockAverage_def blockOf_def pixelAt_def ex_rgba_def included_def alphaOf_def
          roundedMean_def Let_def upt_conv_Cons round_def)
  from rebuildBase_alpha_aware_average [OF wf h(1) h(1) h(2) h(3)]
  obtain res where res: "rebuildBase ex_rgba 2 2 0 0 = Inr res"
      "img_width (baseImageData res) = (img_width ex_rgba - 0) div 2"
      "img_height (baseImageData res) = (img_height ex_rgba - 0) div 2"
      "\<forall>bx<(img_width ex_rgba - 0) div 2. \<forall>by<(img_height ex_rgba - 0) div 2.
            pixelAt (baseImageData res) bx by = spec_blockAverage (blockOf ex_rgba 2 2 0 0 bx by)
            \<and> (pixelAt (baseImageData res) bx by = (0, 0, 0, 0)
                 \<longleftrightarrow> (\<forall>p\<in>set (blockOf ex_rgba 2 2 0 0 bx by). alphaOf p < 128))"
    by blast
  have d: "(img_width ex_rgba - 0) div 2 = 2" "(img_height ex_rgba - 0) div 2 = 1"
    by (simp_all add: ex_rgba_def)
  have "pixelAt (baseImageData res) 0 0 = (15, 30, 45, 228)"
    using res(4) [unfolded d, rule_format, of 0 0] e0 by simp
  moreover have "pixelAt (baseImageData res) 1 0 = (0, 0, 0, 0)"
    using res(4) [unfolded d, rule_format, of 1 0] e1 by simp
  ultimately show ?thesis using wf res(1) res(2) res(3) d by auto
qed


section \<open>Grid detection\<close>

lemma js_rem_nonneg: "0 \<le> a \<Longrightarrow> 0 < b \<Longrightarrow> js_rem a b = a mod b"
  by (cases "a = 0") (simp_all add: js_rem_def sgn_if)

lemma js_rem_neg: "a < 0 \<Longrightarrow> 0 < b \<Longrightarrow> js_rem a b = - ((- a) mod b)"
  by (simp add: js_rem_def sgn_if)

lemma js_double_rem:
  assumes "0 < s"
  shows "js_rem (js_rem a s + s) s = a mod s"
proof (cases "0 \<le> a")
  case True
  have "0 \<le> a mod s" using assms by simp
  then have "js_rem (a mod s + s) s = (a mod s + s) mod s"
    using assms by (intro js_rem_nonneg) simp_all
  then show ?thesis using True assms by (simp add: js_rem_nonneg)
next
  case False
  then have a: "a < 0" by simp
  define m where "m = (- a) mod s"
  have m: "0 \<le> m" "m < s" using assms by (simp_all add: m_def)
  have "js_rem (- m + s) s = (- m + s) mod s"
    using assms m by (intro js_rem_nonneg) simp_all
  also have "\<dots> = (- m) mod s" by simp
  also have "\<dots> = (- (- a)) mod s" unfolding m_def by (simp only: mod_minus_eq)
  finally show ?thesis using a assms by (simp add: js_rem_neg m_def)
qed

lemma isBoundary_spec: "0 < s \<Longrightarrow> isBoundary s d i = spec_boundary s d i"
  by (simp add: isBoundary_def spec_boundary_def js_double_rem)

lemma fold_evalStep:
  assumes "0 < s"
  shows "fold (evalStep diff s d) ps (nonSum, nonCount, bSum, bCount)
     = (nonSum + sum_list (map (\<lambda>i. diff ! i) (filter (\<lambda>i. \<not> spec_boundary s d i) ps)),
        nonCount + length (filter (\<lambda>i. \<not> spec_boundary s d i) ps),
        bSum + sum_list (map (\<lambda>i. diff ! i) (filter (spec_boundary s d) ps)),
        bCount + length (filter (spec_boundary s d) ps))"
proof (induction ps arbitrary: nonSum nonCount bSum bCount)
  case Nil
  then show ?case by simp
next
  case (Cons i ps)
  show ?case
  proof (cases "spec_boundary s d i")
    case True
    then have "evalStep diff s d i (nonSum, nonCount, bSum, bCount) = (nonSum, nonCount, bSum + diff ! i, bCount + 1)"
      using assms by (simp add: evalStep_def isBoundary_spec)
    then show ?thesis using True by (simp add: Cons.IH)
  next
    case False
    then have "evalStep diff s d i (nonSum, nonCount, bSum, bCount) = (nonSum + diff ! i, nonCount + 1, bSum, bCount)"
      using assms by (simp add: evalStep_def isBoundary_spec)
    then show ?thesis using False by (simp add: Cons.IH)
  qed
qed

lemma evaluateScaleOffset1D_spec:
  assumes "0 < s"
  shows "evaluateScaleOffset1D diff s d = (spec_ratio diff s d, spec_nonMean diff s d, spec_bMean diff s d)"
  by (simp add: evaluateScaleOffset1D_def fold_evalStep [OF assms] Let_def spec_ratio_def spec_nonMean_def
        spec_bMean_def meanAt_def boundaryPositions_def nonBoundaryPositions_def)

lemma score_spec: "score (spec_ratio diff s d) (spec_bMean diff s d) = spec_score diff s d"
  by (simp add: score_def spec_score_def)

lemma detectStep_spec:
  assumes "0 < s"
  shows "detectStep diff s d best =
     (if bound_less (spec_score diff s d) (score (best_ratio best) (best_bound best))
      then \<lparr> best_s = s, best_d = d, best_ratio = spec_ratio diff s d, best_non = spec_nonMean diff s d,
             best_bound = spec_bMean diff s d \<rparr>
      else best)"
  by (simp add: detectStep_def evaluateScaleOffset1D_spec [OF assms] score_spec)

lemma bound_less_irrefl [simp]: "\<not> bound_less a a"
  by (cases a) simp_all

lemma bound_le_trans: "\<not> bound_less b a \<Longrightarrow> \<not> bound_less c b \<Longrightarrow> \<not> bound_less c a"
  by (cases a; cases b; cases c) simp_all

lemma bound_less_imp_le: "bound_less a b \<Longrightarrow> \<not> bound_less b a"
  by (cases a; cases b) simp_all

lemma fold_nested_dep:
  "fold (\<lambda>y. fold (f y) (xs y)) ys acc = fold (\<lambda>(y, x). f y x) (concat (map (\<lambda>y. map (Pair y) (xs y)) ys)) acc"
  by (induction ys arbitrary: acc) (simp_all add: fold_map comp_def)

lemma gridCandidates_iff: "(s, d) \<in> set (gridCandidates maxS) \<longleftrightarrow> 2 \<le> s \<and> s \<le> maxS \<and> d < s"
  by (auto simp add: gridCandidates_def)

lemma detectAxis_flat:
  "detectAxis diff maxS = fold (\<lambda>(s, d). detectStep diff s d) (gridCandidates maxS)
      \<lparr> best_s = 1, best_d = 0, best_ratio = PosInf, best_non = Fin 0, best_bound = 0 \<rparr>"
  by (simp only: detectAxis_def gridCandidates_def fold_nested_dep)

lemma fold_detectStep:
  assumes pos: "\<forall>c\<in>set cs. 0 < fst c"
  shows "(fold (\<lambda>(s, d). detectStep diff s d) cs best0 = best0
          \<or> ((best_s (fold (\<lambda>(s, d). detectStep diff s d) cs best0),
               best_d (fold (\<lambda>(s, d). detectStep diff s d) cs best0)) \<in> set cs
              \<and> best_ratio (fold (\<lambda>(s, d). detectStep diff s d) cs best0)
                  = spec_ratio diff (best_s (fold (\<lambda>(s, d). detectStep diff s d) cs best0))
                                    (best_d (fold (\<lambda>(s, d). detectStep diff s d) cs best0))
              \<and> best_bound (fold (\<lambda>(s, d). detectStep diff s d) cs best0)
                  = spec_bMean diff (best_s (fold (\<lambda>(s, d). detectStep diff s d) cs best0))
                                    (best_d (fold (\<lambda>(s, d). detectStep diff s d) cs best0))))
       \<and> \<not> bound_less (score (best_ratio best0) (best_bound best0))
                       (score (best_ratio (fold (\<lambda>(s, d). detectStep diff s d) cs best0))
                              (best_bound (fold (\<lambda>(s, d). detectStep diff s d) cs best0)))
       \<and> (\<forall>s d. (s, d) \<in> set cs \<longrightarrow>
             \<not> bound_less (spec_score diff s d)
                          (score (best_ratio (fold (\<lambda>(s, d). detectStep diff s d) cs best0))
                                 (best_bound (fold (\<lambda>(s, d). detectStep diff s d) cs best0))))"
  using pos
proof (induction cs rule: rev_induct)
  case Nil
  then show ?case by simp
next
  case (snoc c cs)
  obtain s d where c: "c = (s, d)" by (cases c) auto
  define r' where "r' = fold (\<lambda>(s, d). detectStep diff s d) cs best0"
  define r where "r = detectStep diff s d r'"
  have fr: "fold (\<lambda>(s, d). detectStep diff s d) (cs @ [c]) best0 = r"
    by (simp add: c r_def r'_def)
  have s: "0 < s" using snoc.prems by (simp add: c)
  have ih: "r' = best0 \<or> ((best_s r', best_d r') \<in> set cs
              \<and> best_ratio r' = spec_ratio diff (best_s r') (best_d r')
              \<and> best_bound r' = spec_bMean diff (best_s r') (best_d r'))"
      "\<not> bound_less (score (best_ratio best0) (best_bound best0)) (score (best_ratio r') (best_bound r'))"
      "\<And>s d. (s, d) \<in> set cs \<Longrightarrow> \<not> bound_less (spec_score diff s d) (score (best_ratio r') (best_bound r'))"
    using snoc.IH snoc.prems unfolding r'_def [symmetric] by auto
  show ?case
  proof (cases "bound_less (spec_score diff s d) (score (best_ratio r') (best_bound r'))")
    case True
    then have r: "r = \<lparr> best_s = s, best_d = d, best_ratio = spec_ratio diff s d,
                         best_non = spec_nonMean diff s d, best_bound = spec_bMean diff s d \<rparr>"
      by (simp add: r_def detectStep_spec [OF s])
    have sc: "score (best_ratio r) (best_bound r) = spec_score diff s d"
      by (simp add: r score_spec)
    have le: "\<not> bound_less (score (best_ratio r') (best_bound r')) (spec_score diff s d)"
      using True by (rule bound_less_imp_le)
    have a: "(best_s r, best_d r) \<in> set (cs @ [c]) \<and> best_ratio r = spec_ratio diff (best_s r) (best_d r)
              \<and> best_bound r = spec_bMean diff (best_s r) (best_d r)"
      by (simp add: r c)
    have b: "\<not> bound_less (score (best_ratio best0) (best_bound best0)) (score (best_ratio r) (best_bound r))"
      unfolding sc using le ih(2) by (rule bound_le_trans)
    have "\<not> bound_less (spec_score diff s' d') (score (best_ratio r) (best_bound r))"
      if "(s', d') \<in> set (cs @ [c])" for s' d'
    proof (cases "(s', d') = c")
      case True
      then show ?thesis by (simp add: sc c)
    next
      case False
      then have "(s', d') \<in> set cs" using that by simp
      from ih(3) [OF this] show ?thesis unfolding sc using le bound_le_trans by blast
    qed
    with a b show ?thesis unfolding fr by blast
  next
    case False
    then have r: "r = r'" by (simp add: r_def detectStep_spec [OF s])
    have a: "r' = best0 \<or> ((best_s r', best_d r') \<in> set (cs @ [c])
              \<and> best_ratio r' = spec_ratio diff (best_s r') (best_d r')
              \<and> best_bound r' = spec_bMean diff (best_s r') (best_d r'))"
      using ih(1) by auto
    have "\<not> bound_less (spec_score diff s' d') (score (best_ratio r') (best_bound r'))"
      if "(s', d') \<in> set (cs @ [c])" for s' d'
      using that ih(3) False by (auto simp add: c)
    with a ih(2) show ?thesis unfolding fr r by blast
  qed
qed

lemma first_candidate_finite:
  assumes "diff \<noteq> []"
  shows "\<exists>v. spec_score diff 2 0 = Fin v"
proof -
  have "\<not> spec_boundary 2 0 0" by (simp add: spec_boundary_def)
  moreover have "0 \<in> set [0..<length diff]" using assms by simp
  ultimately have "nonBoundaryPositions diff 2 0 \<noteq> []"
    unfolding nonBoundaryPositions_def filter_empty_conv by blast
  then show ?thesis
    by (simp add: spec_score_def spec_ratio_def spec_nonMean_def)
qed




end
